theory Spec2Isabelle
  imports Main "HOL-Library.Char_ord" "HOL-Library.List_Lexorder"
begin

section \<open>Python values and string primitives\<close>

text \<open>
  A Python \<open>str\<close> is modelled as a \<open>string\<close> whose characters are read as the code
  points 0 to 255. The character classes below are Python's on that range:
  \<open>str.isspace\<close> (which \<open>str.strip\<close> and the regular expression class \<open>\s\<close> both
  use), the decimal digits of \<open>\d\<close>, \<open>str.isalnum\<close> and \<open>str.lower\<close>.
\<close>

definition ord :: "char \<Rightarrow> nat" where
  "ord c = of_char c"

definition isspace :: "char \<Rightarrow> bool" where
  "isspace c \<longleftrightarrow>
     (let n = ord c in (9 \<le> n \<and> n \<le> 13) \<or> (28 \<le> n \<and> n \<le> 32) \<or> n = 133 \<or> n = 160)"

definition isdecimal :: "char \<Rightarrow> bool" where
  "isdecimal c \<longleftrightarrow> (let n = ord c in 48 \<le> n \<and> n \<le> 57)"

definition isalpha :: "char \<Rightarrow> bool" where
  "isalpha c \<longleftrightarrow>
     (let n = ord c in
        (65 \<le> n \<and> n \<le> 90) \<or> (97 \<le> n \<and> n \<le> 122) \<or> n = 170 \<or> n = 181 \<or> n = 186 \<or>
        (192 \<le> n \<and> n \<le> 214) \<or> (216 \<le> n \<and> n \<le> 246) \<or> (248 \<le> n \<and> n \<le> 255))"

definition isalnum :: "char \<Rightarrow> bool" where
  "isalnum c \<longleftrightarrow>
     (let n = ord c in
        isalpha c \<or> isdecimal c \<or> n = 178 \<or> n = 179 \<or> n = 185 \<or> (188 \<le> n \<and> n \<le> 190))"

definition lower_char :: "char \<Rightarrow> char" where
  "lower_char c =
     (let n = ord c in
        if (65 \<le> n \<and> n \<le> 90) \<or> (192 \<le> n \<and> n \<le> 222 \<and> n \<noteq> 215) then char_of (n + 32) else c)"

definition lower :: "string \<Rightarrow> string" where
  "lower s = map lower_char s"

text \<open>\<open>s.strip()\<close>: leading and trailing whitespace removed.\<close>

definition strip :: "string \<Rightarrow> string" where
  "strip s = rev (dropWhile isspace (rev (dropWhile isspace s)))"

text \<open>\<open>s.startswith(p)\<close>.\<close>

definition startswith :: "string \<Rightarrow> string \<Rightarrow> bool" where
  "startswith p s \<longleftrightarrow> take (length p) s = p"

text \<open>\<open>s.split(d)\<close> for a one-character separator: never empty, \<open>''''\<close> gives \<open>['''']\<close>.\<close>

fun split :: "char \<Rightarrow> string \<Rightarrow> string list" where
  "split d [] = [[]]"
| "split d (c # cs) =
     (if c = d then [] # split d cs
      else (case split d cs of [] \<Rightarrow> [[c]] | r # rs \<Rightarrow> (c # r) # rs))"

text \<open>\<open>sep.join(xs)\<close>.\<close>

fun join :: "string \<Rightarrow> string list \<Rightarrow> string" where
  "join sep [] = []"
| "join sep [x] = x"
| "join sep (x # y # ys) = x @ sep @ join sep (y # ys)"

text \<open>\<open>s.replace(c, r)\<close> for a one-character pattern.\<close>

definition replace :: "char \<Rightarrow> string \<Rightarrow> string \<Rightarrow> string" where
  "replace c r s = concat (map (\<lambda>x. if x = c then r else [x]) s)"

abbreviation newline :: char where
  "newline \<equiv> CHR 0x0A"

text \<open>Decimal rendering of an \<open>int\<close>, as \<open>str\<close> and f-strings produce it.\<close>

fun dec_nat :: "nat \<Rightarrow> string" where
  "dec_nat n =
     (if n < 10 then [''0123456789'' ! n] else dec_nat (n div 10) @ [''0123456789'' ! (n mod 10)])"

definition str_int :: "int \<Rightarrow> string" where
  "str_int i = (if i < 0 then CHR ''-'' # dec_nat (nat (- i)) else dec_nat (nat i))"

text \<open>
  The dynamically typed values that cross the interfaces: block and page objects of the
  remote API, and the values of a document header. A \<open>dict\<close> is an association list in
  insertion order, with string keys.
\<close>

datatype pyval =
    PNone
  | PBool bool
  | PInt int
  | PStr string
  | PList "pyval list"
  | PDict "(string \<times> pyval) list"

text \<open>
  An exception instance, of a class derived from \<open>Exception\<close>: the name of its class
  and the text \<open>str(e)\<close> gives.
\<close>

datatype exn = Exn (exn_class: string) (exn_str: string)

fun type_name :: "pyval \<Rightarrow> string" where
  "type_name PNone = ''NoneType''"
| "type_name (PBool _) = ''bool''"
| "type_name (PInt _) = ''int''"
| "type_name (PStr _) = ''str''"
| "type_name (PList _) = ''list''"
| "type_name (PDict _) = ''dict''"

definition quoted :: "string \<Rightarrow> string" where
  "quoted s = [CHR 0x27] @ s @ [CHR 0x27]"

definition attribute_error :: "pyval \<Rightarrow> string \<Rightarrow> exn" where
  "attribute_error v attr =
     Exn ''AttributeError'' (quoted (type_name v) @ '' object has no attribute '' @ quoted attr)"

definition key_error :: "string \<Rightarrow> exn" where
  "key_error k = Exn ''KeyError'' (quoted k)"

definition type_error :: "string \<Rightarrow> exn" where
  "type_error msg = Exn ''TypeError'' msg"

text \<open>Truthiness, as \<open>if x:\<close> and \<open>not x\<close> test it.\<close>

fun truthy :: "pyval \<Rightarrow> bool" where
  "truthy PNone = False"
| "truthy (PBool b) = b"
| "truthy (PInt i) = (i \<noteq> 0)"
| "truthy (PStr s) = (s \<noteq> [])"
| "truthy (PList xs) = (xs \<noteq> [])"
| "truthy (PDict kvs) = (kvs \<noteq> [])"

text \<open>\<open>d.get(k, default)\<close>: only a \<open>dict\<close> has the method.\<close>

fun py_get :: "pyval \<Rightarrow> string \<Rightarrow> pyval \<Rightarrow> exn + pyval" where
  "py_get (PDict kvs) k dflt = Inr (case map_of kvs k of Some v \<Rightarrow> v | None \<Rightarrow> dflt)"
| "py_get v k dflt = Inl (attribute_error v ''get'')"

text \<open>\<open>for x in v\<close>: the elements of a list, the characters of a string, the keys of a dict.\<close>

fun py_iter :: "pyval \<Rightarrow> exn + pyval list" where
  "py_iter (PList xs) = Inr xs"
| "py_iter (PStr s) = Inr (map (\<lambda>c. PStr [c]) s)"
| "py_iter (PDict kvs) = Inr (map (\<lambda>kv. PStr (fst kv)) kvs)"
| "py_iter v = Inl (type_error (quoted (type_name v) @ '' object is not iterable''))"

text \<open>\<open>d[k] = v\<close> on a dict: an existing key keeps its place.\<close>

fun dict_set :: "(string \<times> pyval) list \<Rightarrow> string \<Rightarrow> pyval \<Rightarrow> (string \<times> pyval) list" where
  "dict_set [] k v = [(k, v)]"
| "dict_set ((k', v') # kvs) k v =
     (if k' = k then (k, v) # kvs else (k', v') # dict_set kvs k v)"

text \<open>Running a fallible step over a list, stopping at the first exception.\<close>

fun map_exn :: "('a \<Rightarrow> exn + 'b) \<Rightarrow> 'a list \<Rightarrow> exn + 'b list" where
  "map_exn f [] = Inr []"
| "map_exn f (x # xs) =
     (case f x of
        Inl e \<Rightarrow> Inl e
      | Inr y \<Rightarrow> (case map_exn f xs of Inl e \<Rightarrow> Inl e | Inr ys \<Rightarrow> Inr (y # ys)))"

section \<open>block_converter.py\<close>

subsection \<open>The two regular expressions of \<open>markdown_to_blocks\<close>\<close>

text \<open>
  Both patterns end in \<open>\s+(.+)$\<close> and are matched against one line, which holds no
  newline. The greedy \<open>\s+\<close> takes every whitespace character; when nothing is left for
  \<open>(.+)\<close>, backtracking hands it the last whitespace character.
\<close>

definition spaced_text :: "string \<Rightarrow> string option" where
  "spaced_text s =
     (let ws = takeWhile isspace s; txt = dropWhile isspace s in
        if ws = [] then None
        else if txt \<noteq> [] then Some txt
        else if 2 \<le> length ws then Some [last ws]
        else None)"

text \<open>\<open>re.match(r'^(#{1,3})\s+(.+)$', line)\<close>: groups 1 and 2.\<close>

definition heading_match :: "string \<Rightarrow> (string \<times> string) option" where
  "heading_match line =
     (let hashes = takeWhile (\<lambda>c. c = CHR ''#'') line; n = length hashes in
        if 1 \<le> n \<and> n \<le> 3 then
          (case spaced_text (drop n line) of
             None \<Rightarrow> None
           | Some text \<Rightarrow> Some (hashes, text))
        else None)"

text \<open>\<open>re.match(r'^\d+\.\s+(.+)$', line)\<close>: group 1.\<close>

definition numbered_match :: "string \<Rightarrow> string option" where
  "numbered_match line =
     (let digits = takeWhile isdecimal line; rest = dropWhile isdecimal line in
        if digits = [] then None
        else (case rest of
                [] \<Rightarrow> None
              | c # after \<Rightarrow> if c = CHR ''.'' then spaced_text after else None))"

subsection \<open>Block constructors\<close>

definition rich_text :: "string \<Rightarrow> pyval" where
  "rich_text text =
     PList [PDict [(''type'', PStr ''text''), (''text'', PDict [(''content'', PStr text)])]]"

definition create_heading_block :: "string \<Rightarrow> int \<Rightarrow> pyval" where
  "create_heading_block text level =
     (let level' = (if level > 3 then 3 else level);
          block_type = ''heading_'' @ str_int level'
      in PDict [(''type'', PStr block_type),
                (block_type, PDict [(''rich_text'', rich_text text)])])"

definition create_paragraph_block :: "string \<Rightarrow> pyval" where
  "create_paragraph_block text =
     PDict [(''type'', PStr ''paragraph''),
            (''paragraph'', PDict [(''rich_text'', rich_text text)])]"

definition create_code_block :: "string \<Rightarrow> string \<Rightarrow> pyval" where
  "create_code_block code language =
     PDict [(''type'', PStr ''code''),
            (''code'', PDict [(''rich_text'', rich_text code), (''language'', PStr language)])]"

definition create_quote_block :: "string \<Rightarrow> pyval" where
  "create_quote_block text =
     PDict [(''type'', PStr ''quote''),
            (''quote'', PDict [(''rich_text'', rich_text text)])]"

definition create_bullet_list_item :: "string \<Rightarrow> pyval" where
  "create_bullet_list_item text =
     PDict [(''type'', PStr ''bulleted_list_item''),
            (''bulleted_list_item'', PDict [(''rich_text'', rich_text text)])]"

definition create_numbered_list_item :: "string \<Rightarrow> pyval" where
  "create_numbered_list_item text =
     PDict [(''type'', PStr ''numbered_list_item''),
            (''numbered_list_item'', PDict [(''rich_text'', rich_text text)])]"

subsection \<open>\<open>markdown_to_blocks\<close>\<close>

text \<open>
  The \<open>while i < len(lines)\<close> loop, on the lines from index \<open>i\<close> on. A fence line
  is one whose stripped form starts with three backquotes; the inner loop collects the
  lines before the next fence line, and \<open>i += 1\<close> then steps over that line (or past
  the end when there is none).
\<close>

definition is_fence :: "string \<Rightarrow> bool" where
  "is_fence raw \<longleftrightarrow> startswith ''```'' (strip raw)"

function blocks_of_lines :: "string list \<Rightarrow> pyval list" where
  "blocks_of_lines [] = []"
| "blocks_of_lines (raw # rest) =
     (let line = strip raw in
        if line = [] then blocks_of_lines rest
        else (case heading_match line of
          Some (hashes, text) \<Rightarrow>
            create_heading_block text (int (length hashes)) # blocks_of_lines rest
        | None \<Rightarrow>
            if startswith ''```'' line then
              create_code_block
                (join [newline] (takeWhile (\<lambda>l. \<not> is_fence l) rest)) (strip (drop 3 line))
              # blocks_of_lines (drop 1 (dropWhile (\<lambda>l. \<not> is_fence l) rest))
            else if startswith ''- '' line \<or> startswith ''* '' line then
              create_bullet_list_item (strip (drop 2 line)) # blocks_of_lines rest
            else (case numbered_match line of
              Some text \<Rightarrow> create_numbered_list_item text # blocks_of_lines rest
            | None \<Rightarrow>
                if startswith ''> '' line then
                  create_quote_block (strip (drop 2 line)) # blocks_of_lines rest
                else create_paragraph_block line # blocks_of_lines rest)))"
  by pat_completeness auto
termination
proof (relation "measure length")
  show "wf (measure length)" by simp
next
  fix raw :: string and rest :: "string list"
  have "length (dropWhile (\<lambda>l. \<not> is_fence l) rest) \<le> length rest"
    by (rule length_dropWhile_le)
  then show "(drop 1 (dropWhile (\<lambda>l. \<not> is_fence l) rest), raw # rest) \<in> measure length"
    by simp
qed simp_all

definition markdown_to_blocks :: "string \<Rightarrow> pyval list" where
  "markdown_to_blocks markdown_content = blocks_of_lines (split newline markdown_content)"

subsection \<open>\<open>blocks_to_markdown\<close>\<close>

text \<open>
  \<open>''.join(item.get('text', {}).get('content', '') for item in rich_text)\<close>: the
  generator is run to its end first, then \<open>join\<close> checks that every part is a \<open>str\<close>
  and names the index of the first part that is not.
\<close>

fun concat_strs :: "nat \<Rightarrow> pyval list \<Rightarrow> exn + string" where
  "concat_strs i [] = Inr []"
| "concat_strs i (PStr s # vs) =
     (case concat_strs (Suc i) vs of Inl e \<Rightarrow> Inl e | Inr r \<Rightarrow> Inr (s @ r))"
| "concat_strs i (v # vs) =
     Inl (type_error (''sequence item '' @ dec_nat i @ '': expected str instance, ''
                      @ type_name v @ '' found''))"

definition get_text_from_rich_text :: "pyval \<Rightarrow> exn + string" where
  "get_text_from_rich_text rt =
     (case py_iter rt of
        Inl e \<Rightarrow> Inl e
      | Inr items \<Rightarrow>
          (case map_exn (\<lambda>item. case py_get item ''text'' (PDict []) of
                                  Inl e \<Rightarrow> Inl e
                                | Inr t \<Rightarrow> py_get t ''content'' (PStr [])) items of
             Inl e \<Rightarrow> Inl e
           | Inr parts \<Rightarrow> concat_strs 0 parts))"

text \<open>
  \<open>_get_text_from_rich_text(payload.get('rich_text', []))\<close> for the payload
  \<open>block[key]\<close>, and the lookup \<open>block[key]\<close> itself on a dict with the entries
  \<open>kvs\<close>.
\<close>

definition payload_text :: "pyval \<Rightarrow> exn + string" where
  "payload_text payload =
     (case py_get payload ''rich_text'' (PList []) of
        Inl e \<Rightarrow> Inl e
      | Inr rt \<Rightarrow> get_text_from_rich_text rt)"

definition block_text :: "(string \<times> pyval) list \<Rightarrow> string \<Rightarrow> exn + string" where
  "block_text kvs key =
     (case map_of kvs key of
        None \<Rightarrow> Inl (key_error key)
      | Some payload \<Rightarrow> payload_text payload)"

text \<open>
  An f-string field \<open>{v}\<close>: a \<open>str\<close> is inserted as it is; for any other value the
  text is Python's \<open>str(v)\<close>, which is the parameter \<open>str_of\<close>.
\<close>

definition format_value :: "(pyval \<Rightarrow> string) \<Rightarrow> pyval \<Rightarrow> string" where
  "format_value str_of v = (case v of PStr s \<Rightarrow> s | _ \<Rightarrow> str_of v)"

text \<open>
  The lines one block appends to \<open>markdown_lines\<close>, before the blank line that follows
  every block. A \<open>type\<close> that is not a \<open>str\<close> equals none of the tags. In the heading
  case \<open>int(block_type[-1])\<close> reads the final digit of one of the three heading tags.
\<close>

definition block_markdown_lines :: "(pyval \<Rightarrow> string) \<Rightarrow> pyval \<Rightarrow> exn + string list" where
  "block_markdown_lines str_of block =
     (case block of
        PDict kvs \<Rightarrow>
          (case map_of kvs ''type'' of
             Some (PStr block_type) \<Rightarrow>
               if block_type \<in> set [''heading_1'', ''heading_2'', ''heading_3''] then
                 (case block_text kvs block_type of
                    Inl e \<Rightarrow> Inl e
                  | Inr text \<Rightarrow>
                      Inr [replicate (ord (last block_type) - 48) (CHR ''#'') @ '' '' @ text])
               else if block_type = ''paragraph'' then
                 (case block_text kvs ''paragraph'' of
                    Inl e \<Rightarrow> Inl e
                  | Inr text \<Rightarrow> Inr [text])
               else if block_type = ''code'' then
                 (case map_of kvs ''code'' of
                    None \<Rightarrow> Inl (key_error ''code'')
                  | Some payload \<Rightarrow>
                      (case payload_text payload of
                         Inl e \<Rightarrow> Inl e
                       | Inr text \<Rightarrow>
                           (case py_get payload ''language'' (PStr []) of
                              Inl e \<Rightarrow> Inl e
                            | Inr language \<Rightarrow>
                                Inr [''```'' @ format_value str_of language, text, ''```''])))
               else if block_type = ''quote'' then
                 (case block_text kvs ''quote'' of
                    Inl e \<Rightarrow> Inl e
                  | Inr text \<Rightarrow> Inr [''> '' @ text])
               else if block_type = ''bulleted_list_item'' then
                 (case block_text kvs ''bulleted_list_item'' of
                    Inl e \<Rightarrow> Inl e
                  | Inr text \<Rightarrow> Inr [''- '' @ text])
               else if block_type = ''numbered_list_item'' then
                 (case block_text kvs ''numbered_list_item'' of
                    Inl e \<Rightarrow> Inl e
                  | Inr text \<Rightarrow> Inr [''1. '' @ text])
               else Inr []
           | _ \<Rightarrow> Inr [])
      | _ \<Rightarrow> Inl (attribute_error block ''get''))"

fun markdown_lines_of :: "(pyval \<Rightarrow> string) \<Rightarrow> pyval list \<Rightarrow> exn + string list" where
  "markdown_lines_of str_of [] = Inr []"
| "markdown_lines_of str_of (block # blocks) =
     (case block_markdown_lines str_of block of
        Inl e \<Rightarrow> Inl e
      | Inr ls \<Rightarrow>
          (case markdown_lines_of str_of blocks of
             Inl e \<Rightarrow> Inl e
           | Inr rest \<Rightarrow> Inr (ls @ [[]] @ rest)))"

definition blocks_to_markdown :: "(pyval \<Rightarrow> string) \<Rightarrow> pyval list \<Rightarrow> exn + string" where
  "blocks_to_markdown str_of blocks =
     (case markdown_lines_of str_of blocks of
        Inl e \<Rightarrow> Inl e
      | Inr markdown_lines \<Rightarrow> Inr (join [newline] markdown_lines))"

section \<open>The world around the orchestrator\<close>

text \<open>
  A local file is modelled by what \<open>frontmatter.parse\<close> makes of its text: the header
  as a dict and the body, or the exception that opening, decoding or parsing the file
  raises. The header is YAML front matter, the format the program itself writes.
\<close>

record post =
  metadata :: "(string \<times> pyval) list"
  content :: string

text \<open>
  A \<open>datetime\<close>: naive (a wall-clock reading, in microseconds) or aware (an instant,
  in microseconds of UTC). Python orders two naive or two aware values and raises
  \<open>TypeError\<close> when asked to order a naive and an aware one.
\<close>

datatype datetime = Naive int | Aware int

fun dt_gt :: "datetime \<Rightarrow> datetime \<Rightarrow> exn + bool" where
  "dt_gt (Naive a) (Naive b) = Inr (a > b)"
| "dt_gt (Aware a) (Aware b) = Inr (a > b)"
| "dt_gt _ _ = Inl (type_error ''can't compare offset-naive and offset-aware datetimes'')"

text \<open>The calls made on the gateway, recorded in the order they are made.\<close>

datatype call =
    GetPage pyval
  | GetPageBlocks pyval
  | UpdatePageBlocks pyval "pyval list"
  | CreatePage string pyval "(string \<times> pyval) list"
  | DatabasesRetrieve string

record world =
  files :: "string \<Rightarrow> (exn + post) option"
  calls :: "call list"
  clock :: nat

text \<open>
  What lies outside the repository's own logic, as parameters: the configuration values
  the orchestrator reads; the gateway operations of \<open>notion_client.py\<close> and the one SDK
  call the orchestrator makes directly, each of which returns a value or raises; the
  Markdown-to-HTML conversion; the failures of directory creation and of opening a file
  for writing; Python's \<open>str\<close> on values that are not strings; the clock, read as
  \<open>datetime.now().isoformat()\<close>; \<open>datetime.fromisoformat\<close>; and
  \<open>os.path.getmtime\<close>, given as the local wall-clock microseconds that
  \<open>datetime.fromtimestamp\<close> makes of it; and \<open>frontmatter.dumps\<close> of a post whose
  \<open>handler\<close> attribute is a truthy header value instead of a handler object, which
  raises or returns a text, given as what \<open>frontmatter.parse\<close> makes of that text.
\<close>

record env =
  has_client :: bool
  parent_page_id :: "string option"
  markdown_root :: string
  get_page :: "pyval \<Rightarrow> exn + pyval"
  get_page_blocks :: "pyval \<Rightarrow> exn + pyval list"
  update_page_blocks :: "pyval \<Rightarrow> pyval list \<Rightarrow> exn option"
  create_page :: "string \<Rightarrow> pyval \<Rightarrow> (string \<times> pyval) list \<Rightarrow> exn + pyval"
  databases_retrieve :: "string \<Rightarrow> exn option"
  md_convert :: "string \<Rightarrow> exn + string"
  makedirs_error :: "string \<Rightarrow> exn option"
  write_error :: "string \<Rightarrow> exn option"
  py_str :: "pyval \<Rightarrow> string"
  now_isoformat :: "nat \<Rightarrow> string"
  fromisoformat :: "string \<Rightarrow> exn + datetime"
  getmtime :: "string \<Rightarrow> exn + int"
  dumps_with_handler :: "pyval \<Rightarrow> post \<Rightarrow> exn + (exn + post)"

text \<open>
  A statement sequence that reads and changes the world and either yields a value or
  raises: \<open>io_bind\<close> is sequencing, \<open>io_try m h\<close> is
  \<open>try: m except Exception as e: h e\<close>, which catches every exception of the model.
\<close>

type_synonym 'a action = "world \<Rightarrow> (exn + 'a) \<times> world"

definition io_return :: "'a \<Rightarrow> 'a action" where
  "io_return x = (\<lambda>w. (Inr x, w))"

definition io_raise :: "exn \<Rightarrow> 'a action" where
  "io_raise e = (\<lambda>w. (Inl e, w))"

definition io_lift :: "exn + 'a \<Rightarrow> 'a action" where
  "io_lift r = (\<lambda>w. (r, w))"

definition io_bind :: "'a action \<Rightarrow> ('a \<Rightarrow> 'b action) \<Rightarrow> 'b action" where
  "io_bind m f = (\<lambda>w. case m w of (Inl e, w') \<Rightarrow> (Inl e, w') | (Inr x, w') \<Rightarrow> f x w')"

definition io_try :: "'a action \<Rightarrow> (exn \<Rightarrow> 'a action) \<Rightarrow> 'a action" where
  "io_try m h = (\<lambda>w. case m w of (Inl e, w') \<Rightarrow> h e w' | (Inr x, w') \<Rightarrow> (Inr x, w'))"

definition io_call :: "call \<Rightarrow> exn + 'a \<Rightarrow> 'a action" where
  "io_call c r = (\<lambda>w. (r, w\<lparr>calls := calls w @ [c]\<rparr>))"

definition raise_if :: "exn option \<Rightarrow> unit action" where
  "raise_if r = (case r of None \<Rightarrow> io_return () | Some e \<Rightarrow> io_raise e)"

definition path_exists :: "string \<Rightarrow> bool action" where
  "path_exists path = (\<lambda>w. (Inr (files w path \<noteq> None), w))"

text \<open>
  \<open>frontmatter.load\<close> builds \<open>Post(content, handler, **metadata)\<close> from the parsed
  header and body, so a header key that names a parameter of \<open>Post.__init__\<close> is a
  \<open>TypeError\<close>; the message names the first such key of the header.
\<close>

definition post_parameters :: "string list" where
  "post_parameters = [''self'', ''content'', ''handler'']"

definition multiple_values :: "string \<Rightarrow> exn" where
  "multiple_values k =
     type_error (''Post.__init__() got multiple values for argument '' @ quoted k)"

definition load_post :: "string \<Rightarrow> post action" where
  "load_post path =
     (\<lambda>w. case files w path of
            None \<Rightarrow>
              (Inl (Exn ''FileNotFoundError''
                      (''[Errno 2] No such file or directory: '' @ quoted path)), w)
          | Some (Inl e) \<Rightarrow> (Inl e, w)
          | Some (Inr p) \<Rightarrow>
              (case find (\<lambda>k. k \<in> set post_parameters) (map fst (metadata p)) of
                 Some k \<Rightarrow> (Inl (multiple_values k), w)
               | None \<Rightarrow> (Inr p, w)))"

text \<open>
  \<open>frontmatter.dumps\<close> writes the header with \<open>yaml.dump\<close>, which lists the keys of
  every mapping in sorted order, and a later parse strips the body: \<open>yaml_value\<close> is a
  header value as it is read back, and \<open>dumped\<close> is what a later parse makes of the text
  written for a post. Strings are ordered as Python orders them, by code point.
\<close>

fun yaml_value :: "pyval \<Rightarrow> pyval" where
  "yaml_value (PList xs) = PList (map yaml_value xs)"
| "yaml_value (PDict kvs) = PDict (sort_key fst (map (\<lambda>(k, v). (k, yaml_value v)) kvs))"
| "yaml_value v = v"

definition dumped :: "post \<Rightarrow> post" where
  "dumped p =
     \<lparr>metadata = sort_key fst (map (\<lambda>(k, v). (k, yaml_value v)) (metadata p)),
      content = strip (content p)\<rparr>"

text \<open>
  \<open>with open(path, 'w') as f: f.write(frontmatter.dumps(post))\<close> for a post with no
  handler of its own or with the YAML handler it was loaded with.
\<close>

definition write_post :: "env \<Rightarrow> string \<Rightarrow> post \<Rightarrow> unit action" where
  "write_post env path p =
     (\<lambda>w. case write_error env path of
            Some e \<Rightarrow> (Inl e, w)
          | None \<Rightarrow> (Inr (), w\<lparr>files := (files w)(path \<mapsto> Inr (dumped p))\<rparr>))"

text \<open>
  The same statement for a post whose \<open>handler\<close> attribute is the truthy value \<open>h\<close>:
  \<open>open\<close> has emptied the file before \<open>dumps\<close> runs, so the file stays empty when
  \<open>dumps\<close> raises.
\<close>

definition write_post_with :: "env \<Rightarrow> string \<Rightarrow> pyval \<Rightarrow> post \<Rightarrow> unit action" where
  "write_post_with env path h p =
     (\<lambda>w. case write_error env path of
            Some e \<Rightarrow> (Inl e, w)
          | None \<Rightarrow>
              (case dumps_with_handler env h p of
                 Inl e \<Rightarrow>
                   (Inl e, w\<lparr>files := (files w)(path \<mapsto> Inr \<lparr>metadata = [], content = []\<rparr>)\<rparr>)
               | Inr parsed \<Rightarrow> (Inr (), w\<lparr>files := (files w)(path \<mapsto> parsed)\<rparr>)))"

definition read_clock :: "env \<Rightarrow> string action" where
  "read_clock env = (\<lambda>w. (Inr (now_isoformat env (clock w)), w\<lparr>clock := Suc (clock w)\<rparr>))"

text \<open>\<open>d.get(k)\<close> on a dict given by its entries.\<close>

definition dict_get :: "(string \<times> pyval) list \<Rightarrow> string \<Rightarrow> pyval" where
  "dict_get kvs k = (case map_of kvs k of Some v \<Rightarrow> v | None \<Rightarrow> PNone)"

section \<open>markdown_parser.py\<close>

definition file_not_found :: "string \<Rightarrow> exn" where
  "file_not_found file_path = Exn ''FileNotFoundError'' (''Markdown file not found: '' @ file_path)"

definition parse_file ::
  "env \<Rightarrow> string \<Rightarrow> ((string \<times> pyval) list \<times> string \<times> string) action" where
  "parse_file env file_path =
     io_bind (path_exists file_path) (\<lambda>present.
       if \<not> present then io_raise (file_not_found file_path)
       else
         io_bind (load_post file_path) (\<lambda>post.
         io_bind (io_lift (md_convert env (content post))) (\<lambda>html_content.
         io_return (metadata post, html_content, content post))))"

text \<open>The loop \<open>for key, value in new_metadata.items(): post[key] = value\<close>.\<close>

fun set_items :: "(string \<times> pyval) list \<Rightarrow> (string \<times> pyval) list \<Rightarrow> (string \<times> pyval) list" where
  "set_items kvs [] = kvs"
| "set_items kvs ((key, v) # items) = set_items (dict_set kvs key v) items"

definition update_frontmatter :: "env \<Rightarrow> string \<Rightarrow> (string \<times> pyval) list \<Rightarrow> unit action" where
  "update_frontmatter env file_path new_metadata =
     io_bind (path_exists file_path) (\<lambda>present.
       if \<not> present then io_raise (file_not_found file_path)
       else
         io_bind (load_post file_path) (\<lambda>post.
         write_post env file_path (post\<lparr>metadata := set_items (metadata post) new_metadata\<rparr>)))"

text \<open>
  \<open>frontmatter.Post(content, **metadata)\<close>: a header key \<open>self\<close> or \<open>content\<close>
  collides with an argument already given and is a \<open>TypeError\<close> naming the first such
  key; a header key \<open>handler\<close> is taken as the parameter of that name, so it becomes the
  handler attribute of the post and is no key of its header. Then the parent directory is
  created and the file written; \<open>dumps\<close> uses the handler attribute when it is truthy.
\<close>

definition create_markdown_with_frontmatter ::
  "env \<Rightarrow> string \<Rightarrow> (string \<times> pyval) list \<Rightarrow> string \<Rightarrow> unit action" where
  "create_markdown_with_frontmatter env file_path md body =
     (case find (\<lambda>k. k \<in> set [''self'', ''content'']) (map fst md) of
        Some k \<Rightarrow> io_raise (multiple_values k)
      | None \<Rightarrow>
          io_bind (raise_if (makedirs_error env file_path)) (\<lambda>_.
            (case map_of md ''handler'' of
               None \<Rightarrow> write_post env file_path \<lparr>metadata = md, content = body\<rparr>
             | Some h \<Rightarrow>
                 (let post = \<lparr>metadata = filter (\<lambda>kv. fst kv \<noteq> ''handler'') md, content = body\<rparr>
                  in if truthy h then write_post_with env file_path h post
                     else write_post env file_path post))))"

text \<open>The first line that starts with a hash and a space, without those two, stripped.\<close>

fun first_h1 :: "string list \<Rightarrow> string option" where
  "first_h1 [] = None"
| "first_h1 (line # lines) =
     (if startswith ''# '' line then Some (strip (drop 2 line)) else first_h1 lines)"

definition extract_title :: "string \<Rightarrow> string option" where
  "extract_title body = first_h1 (split newline body)"

section \<open>sync_engine.py\<close>

subsection \<open>Helpers of the standard library\<close>

text \<open>\<open>os.path.basename\<close>, the root of \<open>os.path.splitext\<close> and \<open>os.path.join\<close>, on POSIX paths.\<close>

definition basename :: "string \<Rightarrow> string" where
  "basename p = rev (takeWhile (\<lambda>c. c \<noteq> CHR ''/'') (rev p))"

definition splitext_root :: "string \<Rightarrow> string" where
  "splitext_root name =
     (if CHR ''.'' \<notin> set name then name
      else
        (let ext = takeWhile (\<lambda>c. c \<noteq> CHR ''.'') (rev name);
             root = take (length name - length ext - 1) name
         in if list_ex (\<lambda>c. c \<noteq> CHR ''.'') root then root else name))"

definition path_join :: "string \<Rightarrow> string \<Rightarrow> string" where
  "path_join a b =
     (if startswith ''/'' b then b
      else if a = [] \<or> last a = CHR ''/'' then a @ b
      else a @ ''/'' @ b)"

text \<open>\<open>v[0]\<close> and \<open>v['id']\<close>.\<close>

fun py_first :: "pyval \<Rightarrow> exn + pyval" where
  "py_first (PList []) = Inl (Exn ''IndexError'' ''list index out of range'')"
| "py_first (PList (x # xs)) = Inr x"
| "py_first (PStr []) = Inl (Exn ''IndexError'' ''string index out of range'')"
| "py_first (PStr (c # cs)) = Inr (PStr [c])"
| "py_first (PDict kvs) = Inl (Exn ''KeyError'' ''0'')"
| "py_first v = Inl (type_error (quoted (type_name v) @ '' object is not subscriptable''))"

fun py_item :: "pyval \<Rightarrow> string \<Rightarrow> exn + pyval" where
  "py_item (PDict kvs) k = (case map_of kvs k of Some v \<Rightarrow> Inr v | None \<Rightarrow> Inl (key_error k))"
| "py_item (PList xs) k = Inl (type_error ''list indices must be integers or slices, not str'')"
| "py_item (PStr s) k =
     Inl (type_error (''string indices must be integers, not '' @ quoted ''str''))"
| "py_item v k = Inl (type_error (quoted (type_name v) @ '' object is not subscriptable''))"

subsection \<open>\<open>sync_file_to_notion\<close>\<close>

text \<open>
  Lines 50 to 60: the stored page id, and whether the page can be fetched. The gateway
  is asked only when the id is truthy, and any exception of \<open>get_page\<close> means the
  page does not exist.
\<close>

definition check_page_exists :: "env \<Rightarrow> pyval \<Rightarrow> bool action" where
  "check_page_exists env notion_page_id =
     (if truthy notion_page_id then
        io_try (io_bind (io_call (GetPage notion_page_id) (get_page env notion_page_id))
                  (\<lambda>_. io_return True))
               (\<lambda>e. io_return False)
      else io_return False)"

text \<open>Lines 63 to 69: the title from the header, else the first h1, else the file name.\<close>

definition resolve_title :: "(string \<times> pyval) list \<Rightarrow> string \<Rightarrow> string \<Rightarrow> pyval" where
  "resolve_title md raw_content file_path =
     (let title = dict_get md ''title'' in
      if truthy title then title
      else (case extract_title raw_content of
              Some t \<Rightarrow> if t \<noteq> [] then PStr t else PStr (splitext_root (basename file_path))
            | None \<Rightarrow> PStr (splitext_root (basename file_path))))"

definition dashed_id :: "string \<Rightarrow> string" where
  "dashed_id parent_id =
     (if length parent_id = 32 \<and> CHR ''-'' \<notin> set parent_id then
        take 8 parent_id @ ''-'' @ take 4 (drop 8 parent_id) @ ''-'' @ take 4 (drop 12 parent_id)
        @ ''-'' @ take 4 (drop 16 parent_id) @ ''-'' @ drop 20 parent_id
      else parent_id)"

definition text_item :: "pyval \<Rightarrow> pyval" where
  "text_item v = PDict [(''type'', PStr ''text''), (''text'', PDict [(''content'', v)])]"

text \<open>
  The loop over the header inside the \<open>try\<close> of lines 106 to 126: every key but the
  three reserved ones becomes a text property holding \<open>str(value)\<close>.
\<close>

fun add_properties ::
  "(pyval \<Rightarrow> string) \<Rightarrow> (string \<times> pyval) list \<Rightarrow> (string \<times> pyval) list \<Rightarrow> (string \<times> pyval) list" where
  "add_properties str_of properties [] = properties"
| "add_properties str_of properties ((key, v) # items) =
     (if key \<notin> set [''title'', ''notion_page_id'', ''last_synced''] then
        add_properties str_of
          (dict_set properties key
             (PDict [(''rich_text'', PList [text_item (PStr (format_value str_of v))])])) items
      else add_properties str_of properties items)"

definition page_properties :: "env \<Rightarrow> string \<Rightarrow> pyval \<Rightarrow> (string \<times> pyval) list \<Rightarrow> (string \<times> pyval) list action" where
  "page_properties env parent_id title md =
     (let properties = [(''title'', PDict [(''title'', PList [text_item title])])] in
      io_try
        (io_bind (io_call (DatabasesRetrieve parent_id) (case databases_retrieve env parent_id of
                                                         Some e \<Rightarrow> Inl e | None \<Rightarrow> Inr ()))
           (\<lambda>_. io_return (add_properties (py_str env) properties md)))
        (\<lambda>e. io_return properties))"

text \<open>Lines 75 to 77, the branch taken when the page exists.\<close>

definition update_existing_page :: "env \<Rightarrow> pyval \<Rightarrow> pyval \<Rightarrow> pyval list \<Rightarrow> string action" where
  "update_existing_page env notion_page_id title blocks =
     io_bind (io_call (UpdatePageBlocks notion_page_id blocks)
                (case update_page_blocks env notion_page_id blocks of
                   Some e \<Rightarrow> Inl e | None \<Rightarrow> Inr ()))
       (\<lambda>_. io_return (''Updated Notion page: '' @ format_value (py_str env) title))"

text \<open>
  Lines 79 to 144, the branch taken otherwise. It yields \<open>Inl\<close> of the early return
  when no parent page is configured, and \<open>Inr\<close> of the message when the page has been
  created.
\<close>

definition create_new_page ::
  "env \<Rightarrow> string \<Rightarrow> pyval \<Rightarrow> (string \<times> pyval) list \<Rightarrow> pyval list \<Rightarrow> ((bool \<times> string) + string) action" where
  "create_new_page env file_path title md blocks =
     (case parent_page_id env of
        None \<Rightarrow> io_return (Inl (False, ''Parent page ID not configured''))
      | Some configured \<Rightarrow>
          if configured = [] then io_return (Inl (False, ''Parent page ID not configured''))
          else
            (let parent_id = dashed_id configured in
             io_bind (page_properties env parent_id title md) (\<lambda>properties.
             io_bind (io_call (CreatePage parent_id title properties)
                        (create_page env parent_id title properties)) (\<lambda>page.
             io_bind (io_lift (py_item page ''id'')) (\<lambda>notion_page_id.
             io_bind (io_call (UpdatePageBlocks notion_page_id blocks)
                        (case update_page_blocks env notion_page_id blocks of
                           Some e \<Rightarrow> Inl e | None \<Rightarrow> Inr ())) (\<lambda>_.
             io_bind (read_clock env) (\<lambda>now.
             io_bind (update_frontmatter env file_path
                        [(''notion_page_id'', notion_page_id), (''last_synced'', PStr now)]) (\<lambda>_.
             io_return (Inr (''Created new Notion page: '' @ format_value (py_str env) title))))))))))"

text \<open>Lines 146 to 152, after either branch.\<close>

definition finish_push :: "env \<Rightarrow> string \<Rightarrow> string \<Rightarrow> (bool \<times> string) action" where
  "finish_push env file_path message =
     io_bind (read_clock env) (\<lambda>now.
     io_bind (update_frontmatter env file_path [(''last_synced'', PStr now)]) (\<lambda>_.
     io_return (True, message)))"

text \<open>The body of the \<open>try\<close>, lines 46 to 152.\<close>

definition push_body :: "env \<Rightarrow> string \<Rightarrow> (bool \<times> string) action" where
  "push_body env file_path =
     io_bind (parse_file env file_path) (\<lambda>(md, html_content, raw_content).
     io_bind (check_page_exists env (dict_get md ''notion_page_id'')) (\<lambda>page_exists.
       (let notion_page_id = dict_get md ''notion_page_id'';
            title = resolve_title md raw_content file_path;
            blocks = markdown_to_blocks raw_content
        in if page_exists then
             io_bind (update_existing_page env notion_page_id title blocks)
               (finish_push env file_path)
           else
             io_bind (create_new_page env file_path title md blocks) (\<lambda>r.
               case r of
                 Inl early \<Rightarrow> io_return early
               | Inr message \<Rightarrow> finish_push env file_path message))))"

definition sync_file_to_notion :: "env \<Rightarrow> string \<Rightarrow> (bool \<times> string) action" where
  "sync_file_to_notion env file_path =
     (if \<not> has_client env then io_return (False, ''Notion API token not configured'')
      else io_try (push_body env file_path)
             (\<lambda>e. io_return (False, ''Error syncing file to Notion: '' @ exn_str e)))"

subsection \<open>\<open>sync_notion_to_file\<close>\<close>

text \<open>
  Line 176: \<open>page.get("properties", {}).get("title", {}).get("title", [{}])[0]
  .get("text", {}).get("content", "Untitled")\<close>.
\<close>

definition page_title :: "pyval \<Rightarrow> exn + pyval" where
  "page_title page =
     (case py_get page ''properties'' (PDict []) of Inl e \<Rightarrow> Inl e | Inr properties \<Rightarrow>
      case py_get properties ''title'' (PDict []) of Inl e \<Rightarrow> Inl e | Inr title_property \<Rightarrow>
      case py_get title_property ''title'' (PList [PDict []]) of Inl e \<Rightarrow> Inl e | Inr parts \<Rightarrow>
      case py_first parts of Inl e \<Rightarrow> Inl e | Inr part \<Rightarrow>
      case py_get part ''text'' (PDict []) of Inl e \<Rightarrow> Inl e | Inr t \<Rightarrow>
      py_get t ''content'' (PStr ''Untitled''))"

text \<open>
  Lines 192 to 199: every property but the title that has the type \<open>rich_text\<close> and
  a non-empty rich text adds its first text content to the header.
\<close>

fun extract_properties :: "(string \<times> pyval) list \<Rightarrow> (string \<times> pyval) list \<Rightarrow> exn + (string \<times> pyval) list" where
  "extract_properties md [] = Inr md"
| "extract_properties md ((key, v) # items) =
     (if key \<noteq> ''title'' then
        (case py_get v ''type'' PNone of
           Inl e \<Rightarrow> Inl e
         | Inr ty \<Rightarrow>
             if ty = PStr ''rich_text'' then
               (case py_get v ''rich_text'' (PList []) of
                  Inl e \<Rightarrow> Inl e
                | Inr rt \<Rightarrow>
                    if truthy rt then
                      (case py_first rt of Inl e \<Rightarrow> Inl e | Inr item \<Rightarrow>
                       case py_get item ''text'' (PDict []) of Inl e \<Rightarrow> Inl e | Inr t \<Rightarrow>
                       case py_get t ''content'' (PStr []) of Inl e \<Rightarrow> Inl e | Inr text_content \<Rightarrow>
                       extract_properties (dict_set md key text_content) items)
                    else extract_properties md items)
             else extract_properties md items)
      else extract_properties md items)"

definition page_property_items :: "pyval \<Rightarrow> exn + (string \<times> pyval) list" where
  "page_property_items page =
     (case py_get page ''properties'' (PDict []) of
        Inl e \<Rightarrow> Inl e
      | Inr (PDict kvs) \<Rightarrow> Inr kvs
      | Inr v \<Rightarrow> Inl (attribute_error v ''items''))"

text \<open>
  Lines 217 and 218: each element \<open>c\<close> of the title is kept when \<open>c.isalnum()\<close> or
  \<open>c\<close> is a space, a hyphen or an underscore; then spaces become hyphens and the
  name is lowercased.
\<close>

definition keep_char :: "pyval \<Rightarrow> exn + string" where
  "keep_char c =
     (case c of
        PStr s \<Rightarrow>
          Inr (if (s \<noteq> [] \<and> list_all isalnum s) \<or> s \<in> set ['' '', ''-'', ''_''] then s else [])
      | _ \<Rightarrow> Inl (attribute_error c ''isalnum''))"

definition sanitize_title :: "pyval \<Rightarrow> exn + string" where
  "sanitize_title title =
     (case py_iter title of
        Inl e \<Rightarrow> Inl e
      | Inr cs \<Rightarrow>
          (case map_exn keep_char cs of
             Inl e \<Rightarrow> Inl e
           | Inr kept \<Rightarrow> Inr (lower (replace (CHR '' '') ''-'' (concat kept)))))"

text \<open>
  Lines 201 to 224: where the file goes, and the message. With a target path the file
  is written there, whether or not it exists; with none (or an empty one) the name is
  made from the title, under the configured root directory.
\<close>

definition write_to_path ::
  "env \<Rightarrow> string \<Rightarrow> (string \<times> pyval) list \<Rightarrow> string \<Rightarrow> string action" where
  "write_to_path env file_path md markdown_content =
     io_bind (path_exists file_path) (\<lambda>present.
     io_bind (create_markdown_with_frontmatter env file_path md markdown_content) (\<lambda>_.
     io_return ((if present then ''Updated markdown file: '' else ''Created new markdown file: '')
                @ file_path)))"

definition write_to_derived_path ::
  "env \<Rightarrow> pyval \<Rightarrow> (string \<times> pyval) list \<Rightarrow> string \<Rightarrow> string action" where
  "write_to_derived_path env title md markdown_content =
     io_bind (raise_if (makedirs_error env (markdown_root env))) (\<lambda>_.
     io_bind (io_lift (sanitize_title title)) (\<lambda>filename.
       (let file_path = path_join (markdown_root env) (filename @ ''.md'') in
        io_bind (create_markdown_with_frontmatter env file_path md markdown_content) (\<lambda>_.
        io_return (''Created new markdown file: '' @ file_path)))))"

definition write_pulled_file ::
  "env \<Rightarrow> string option \<Rightarrow> pyval \<Rightarrow> (string \<times> pyval) list \<Rightarrow> string \<Rightarrow> string action" where
  "write_pulled_file env file_path title md markdown_content =
     (case file_path of
        None \<Rightarrow> write_to_derived_path env title md markdown_content
      | Some p \<Rightarrow>
          if p = [] then write_to_derived_path env title md markdown_content
          else write_to_path env p md markdown_content)"

text \<open>The body of the \<open>try\<close>, lines 172 to 226.\<close>

definition pull_body :: "env \<Rightarrow> pyval \<Rightarrow> string option \<Rightarrow> (bool \<times> string) action" where
  "pull_body env notion_page_id file_path =
     io_bind (io_call (GetPage notion_page_id) (get_page env notion_page_id)) (\<lambda>page.
     io_bind (io_lift (page_title page)) (\<lambda>title.
     io_bind (io_call (GetPageBlocks notion_page_id) (get_page_blocks env notion_page_id)) (\<lambda>blocks.
     io_bind (io_lift (blocks_to_markdown (py_str env) blocks)) (\<lambda>markdown_content.
     io_bind (read_clock env) (\<lambda>now.
     io_bind (io_lift (page_property_items page)) (\<lambda>items.
     io_bind (io_lift (extract_properties
                [(''title'', title), (''notion_page_id'', notion_page_id), (''last_synced'', PStr now)]
                items)) (\<lambda>md.
     io_bind (write_pulled_file env file_path title md markdown_content) (\<lambda>message.
     io_return (True, message)))))))))"

definition sync_notion_to_file :: "env \<Rightarrow> pyval \<Rightarrow> string option \<Rightarrow> (bool \<times> string) action" where
  "sync_notion_to_file env notion_page_id file_path =
     (if \<not> has_client env then io_return (False, ''Notion API token not configured'')
      else io_try (pull_body env notion_page_id file_path)
             (\<lambda>e. io_return (False, ''Error syncing Notion page to file: '' @ exn_str e)))"

subsection \<open>\<open>detect_conflicts\<close>\<close>

text \<open>
  \<open>datetime.fromisoformat(v)\<close> for a header or page value, and
  \<open>v.replace("Z", "+00:00")\<close>: both need a \<open>str\<close>.
\<close>

definition parse_iso :: "env \<Rightarrow> pyval \<Rightarrow> exn + datetime" where
  "parse_iso env v =
     (case v of
        PStr s \<Rightarrow> fromisoformat env s
      | _ \<Rightarrow> Inl (type_error ''fromisoformat: argument must be str''))"

definition replace_z :: "pyval \<Rightarrow> exn + pyval" where
  "replace_z v =
     (case v of
        PStr s \<Rightarrow> Inr (PStr (replace (CHR ''Z'') ''+00:00'' s))
      | _ \<Rightarrow> Inl (attribute_error v ''replace''))"

text \<open>
  The body of the \<open>try\<close>, lines 243 to 269. Without a client, \<open>self.notion_client\<close>
  is \<open>None\<close> and the call of \<open>get_page\<close> on it is an \<open>AttributeError\<close>. Both
  comparisons are evaluated before the \<open>and\<close>.
\<close>

definition conflicts_body :: "env \<Rightarrow> string \<Rightarrow> pyval \<Rightarrow> bool action" where
  "conflicts_body env file_path notion_page_id =
     io_bind (parse_file env file_path) (\<lambda>(md, html_content, raw_content).
       (let last_synced = dict_get md ''last_synced'' in
        if \<not> truthy last_synced then io_return False
        else
          io_bind (io_lift (parse_iso env last_synced)) (\<lambda>last_synced_dt.
          io_bind (if has_client env
                   then io_call (GetPage notion_page_id) (get_page env notion_page_id)
                   else io_raise (attribute_error PNone ''get_page'')) (\<lambda>page.
          io_bind (io_lift (py_get page ''last_edited_time'' PNone)) (\<lambda>notion_last_edited.
          io_bind (io_lift (replace_z notion_last_edited)) (\<lambda>replaced.
          io_bind (io_lift (parse_iso env replaced)) (\<lambda>notion_last_edited_dt.
          io_bind (io_lift (getmtime env file_path)) (\<lambda>file_last_modified.
          io_bind (io_lift (dt_gt notion_last_edited_dt last_synced_dt)) (\<lambda>notion_modified.
          io_bind (io_lift (dt_gt (Naive file_last_modified) last_synced_dt)) (\<lambda>file_modified.
          io_return (notion_modified \<and> file_modified)))))))))))"

definition detect_conflicts :: "env \<Rightarrow> string \<Rightarrow> pyval \<Rightarrow> bool action" where
  "detect_conflicts env file_path notion_page_id =
     io_try (conflicts_body env file_path notion_page_id) (\<lambda>e. io_return True)"

section \<open>Notions used in the statements and proofs\<close>

text \<open>A non-empty string with no whitespace at either end: what \<open>strip\<close> leaves fixed.\<close>

definition clean :: "string \<Rightarrow> bool" where
  "clean s \<longleftrightarrow> s \<noteq> [] \<and> \<not> isspace (hd s) \<and> \<not> isspace (last s)"

text \<open>
  The blocks of the lines \<open>ls\<close> render without an exception, and the rendered lines,
  followed by any further lines \<open>X\<close>, parse back to the same blocks followed by the
  blocks of \<open>X\<close>.
\<close>

definition reparses :: "(pyval \<Rightarrow> string) \<Rightarrow> string list \<Rightarrow> bool" where
  "reparses f ls \<longleftrightarrow>
     (\<exists>out. markdown_lines_of f (blocks_of_lines ls) = Inr out \<and>
        (\<forall>X. blocks_of_lines (concat (map (split newline) out) @ X)
              = blocks_of_lines ls @ blocks_of_lines X))"

text \<open>The block tags of the remote API that the converter produces.\<close>

definition block_tags :: "string list" where
  "block_tags = [''heading_1'', ''heading_2'', ''heading_3'', ''paragraph'', ''code'', ''quote'',
                 ''bulleted_list_item'', ''numbered_list_item'']"

text \<open>
  Reading a block object back: the content of a one-item \<open>rich_text\<close> list, the
  content and optional language of a payload, and the tag, content and optional
  language of a block with exactly the keys \<open>type\<close> and the tag.
\<close>

definition rich_text_content :: "pyval \<Rightarrow> string option" where
  "rich_text_content rt =
     (case rt of
        PList [PDict [(k1, PStr ty), (k2, PDict [(k3, PStr inner)])]] \<Rightarrow>
          if k1 = ''type'' \<and> ty = ''text'' \<and> k2 = ''text'' \<and> k3 = ''content'' then Some inner
          else None
      | _ \<Rightarrow> None)"

definition payload_parts :: "pyval \<Rightarrow> (string \<times> string option) option" where
  "payload_parts payload =
     (case payload of
        PDict ((k, rt) # extra) \<Rightarrow>
          (case rich_text_content rt of
             None \<Rightarrow> None
           | Some inner \<Rightarrow>
               if k \<noteq> ''rich_text'' then None
               else (case extra of
                       [] \<Rightarrow> Some (inner, None)
                     | [(l, PStr language)] \<Rightarrow>
                         if l = ''language'' then Some (inner, Some language) else None
                     | _ \<Rightarrow> None))
      | _ \<Rightarrow> None)"

definition block_parts :: "pyval \<Rightarrow> (string \<times> string \<times> string option) option" where
  "block_parts b =
     (case b of
        PDict [(k1, PStr t), (k2, payload)] \<Rightarrow>
          (case payload_parts payload of
             None \<Rightarrow> None
           | Some (inner, language) \<Rightarrow>
               if k1 = ''type'' \<and> k2 = t then Some (t, inner, language) else None)
      | _ \<Rightarrow> None)"

text \<open>
  The parts \<open>(tag, content, language)\<close> of a block are those of the line \<open>raw\<close>
  followed by the lines \<open>rest\<close>: for \<open>code\<close>, the line is a fence line, the content
  is the following lines up to the next fence line, joined by newlines, and the language
  is the stripped remainder of the fence line; for every other tag there is no language
  and the content is the text the stripped line holds for that tag (the whole line for a
  paragraph, the line after its two-character marker for a quote or a bullet item, the
  group of the pattern for a numbered item or a heading, whose level is the number of
  hash characters).
\<close>

definition carries_line :: "string \<Rightarrow> string list \<Rightarrow> string \<times> string \<times> string option \<Rightarrow> bool" where
  "carries_line raw rest parts \<longleftrightarrow>
     (case parts of (t, inner, language) \<Rightarrow>
        (let line = strip raw in
         if t = ''code'' then
           is_fence raw \<and> inner = join [newline] (takeWhile (\<lambda>l. \<not> is_fence l) rest) \<and>
           language = Some (strip (drop 3 line))
         else
           language = None \<and>
           (if t = ''paragraph'' then line \<noteq> [] \<and> inner = line
            else if t = ''quote'' then startswith ''> '' line \<and> inner = strip (drop 2 line)
            else if t = ''bulleted_list_item'' then
              (startswith ''- '' line \<or> startswith ''* '' line) \<and> inner = strip (drop 2 line)
            else if t = ''numbered_list_item'' then numbered_match line = Some inner
            else (case heading_match line of
                    None \<Rightarrow> False
                  | Some (hashes, heading) \<Rightarrow>
                      t = ''heading_'' @ str_int (int (length hashes)) \<and> inner = heading))))"

text \<open>
  A well-formed block object for the source text \<open>source\<close>: its parts can be read
  back, the tag is a block tag, and the parts are those of some line of the source that
  has an even number of fence lines before it (so that it lies outside every fenced
  region, or opens one).
\<close>

definition well_formed_block :: "string \<Rightarrow> pyval \<Rightarrow> bool" where
  "well_formed_block source b \<longleftrightarrow>
     (case block_parts b of
        None \<Rightarrow> False
      | Some parts \<Rightarrow>
          fst parts \<in> set block_tags \<and>
          (let ls = split newline source in
           list_ex (\<lambda>i. even (length (filter is_fence (take i ls))) \<and>
                         carries_line (ls ! i) (drop (Suc i) ls) parts)
             [0..<length ls]))"

text \<open>
  The number of blocks the specification gives for a list of lines: one for every
  non-blank line outside the fenced regions, and one for every fenced region. A region
  opens at a fence line and runs to the next line on which \<open>closes\<close> holds, or to the
  end of the lines; \<open>inside\<close> tells whether the first line lies inside a region. The
  closing test is a parameter: the specification closes a region at a line whose
  stripped form is exactly three backquotes, the source at the next fence line.
\<close>

fun region_blocks :: "(string \<Rightarrow> bool) \<Rightarrow> bool \<Rightarrow> string list \<Rightarrow> nat" where
  "region_blocks closes inside [] = 0"
| "region_blocks closes inside (l # ls) =
     (if inside then region_blocks closes (\<not> closes l) ls
      else if strip l = [] then region_blocks closes False ls
      else Suc (region_blocks closes (is_fence l) ls))"

definition closes_exactly :: "string \<Rightarrow> bool" where
  "closes_exactly l \<longleftrightarrow> strip l = ''```''"

section \<open>Notions for the orchestrator's statements\<close>

text \<open>A call that returned rather than raised.\<close>

definition succeeds :: "exn + 'a \<Rightarrow> bool" where
  "succeeds r \<longleftrightarrow> (case r of Inl e \<Rightarrow> False | Inr x \<Rightarrow> True)"

text \<open>The gateway calls made between the world \<open>w\<close> and the later world \<open>w'\<close>.\<close>

definition new_calls :: "world \<Rightarrow> world \<Rightarrow> call list" where
  "new_calls w w' = drop (length (calls w)) (calls w')"

text \<open>
  The parent id the create branch works with: none when the configuration has no parent
  page id or an empty one, else the configured id in dashed form.
\<close>

definition configured_parent :: "env \<Rightarrow> string option" where
  "configured_parent env =
     (case parent_page_id env of
        None \<Rightarrow> None
      | Some p \<Rightarrow> if p = [] then None else Some (dashed_id p))"

text \<open>An action that only appends to the call log, and one that leaves it as it is.\<close>

definition appends_calls :: "'a action \<Rightarrow> bool" where
  "appends_calls m \<longleftrightarrow> (\<forall>w. \<exists>rest. calls (snd (m w)) = calls w @ rest)"

definition keeps_calls :: "'a action \<Rightarrow> bool" where
  "keeps_calls m \<longleftrightarrow> (\<forall>w. calls (snd (m w)) = calls w)"

section \<open>Concrete documents, worlds and environments\<close>

text \<open>
  The document of the integration test (title, page id and tags), a world holding it as
  \<open>doc.md\<close>, and an environment in which every page lookup fails, a created page
  gets the id \<open>new-page\<close>, and no file operation fails, except that
  \<open>frontmatter.dumps\<close> raises when a header value stands in for the handler.
\<close>

definition test_post :: post where
  "test_post =
     \<lparr>metadata = [(''title'', PStr ''Test Document''), (''notion_page_id'', PStr ''abc123''),
                  (''tags'', PList [PStr ''test'', PStr ''integration''])],
      content = ''# Test Document''\<rparr>"

definition test_world :: world where
  "test_world = \<lparr>files = [''doc.md'' \<mapsto> Inr test_post], calls = [], clock = 0\<rparr>"

definition no_such_page :: exn where
  "no_such_page = Exn ''APIResponseError'' ''Could not find page''"

definition quiet_env :: env where
  "quiet_env =
     \<lparr>has_client = True, parent_page_id = Some ''parent'', markdown_root = ''./docs'',
      get_page = (\<lambda>page_id. Inl no_such_page),
      get_page_blocks = (\<lambda>page_id. Inr []),
      update_page_blocks = (\<lambda>page_id blocks. None),
      create_page = (\<lambda>parent_id title properties. Inr (PDict [(''id'', PStr ''new-page'')])),
      databases_retrieve = (\<lambda>database_id. Some no_such_page),
      md_convert = (\<lambda>body. Inr body),
      makedirs_error = (\<lambda>path. None),
      write_error = (\<lambda>path. None),
      py_str = (\<lambda>v. []),
      now_isoformat = (\<lambda>n. ''2023-06-09T10:00:00''),
      fromisoformat = (\<lambda>s. Inl (Exn ''ValueError'' ''Invalid isoformat string'')),
      getmtime = (\<lambda>path. Inl (Exn ''FileNotFoundError'' ''No such file or directory'')),
      dumps_with_handler = (\<lambda>h p. Inl (attribute_error h ''format''))\<rparr>"

text \<open>An environment in which every page lookup succeeds.\<close>

definition linked_env :: env where
  "linked_env = quiet_env\<lparr>get_page := (\<lambda>page_id. Inr (PDict [(''id'', page_id)]))\<rparr>"

text \<open>
  A document last synchronised at 2023-06-09T10:00:00, written as the orchestrator
  writes it (\<open>datetime.now().isoformat()\<close>, no zone), and an environment whose
  remote page was edited one second later, reported as the remote API reports it (with
  the suffix \<open>Z\<close>); \<open>t0\<close> is 2023-06-09T10:00:00 in microseconds, and \<open>mtime\<close>
  is the file's modification time.
\<close>

definition synced_post :: post where
  "synced_post =
     \<lparr>metadata = [(''title'', PStr ''Test Document''), (''notion_page_id'', PStr ''page-1''),
                  (''last_synced'', PStr ''2023-06-09T10:00:00'')],
      content = ''# Test Document''\<rparr>"

definition synced_world :: world where
  "synced_world = \<lparr>files = [''doc.md'' \<mapsto> Inr synced_post], calls = [], clock = 0\<rparr>"

definition t0 :: int where
  "t0 = 1686304800000000"

definition edited_env :: "int \<Rightarrow> env" where
  "edited_env mtime =
     quiet_env\<lparr>
       get_page := (\<lambda>page_id. Inr (PDict [(''id'', page_id),
                                              (''last_edited_time'', PStr ''2023-06-09T10:00:01.000Z'')])),
       fromisoformat := (\<lambda>s. if s = ''2023-06-09T10:00:00'' then Inr (Naive t0)
                               else if s = ''2023-06-09T10:00:01.000+00:00'' then Inr (Aware (t0 + 1000000))
                               else Inl (Exn ''ValueError'' ''Invalid isoformat string'')),
       getmtime := (\<lambda>path. Inr mtime)\<rparr>"

text \<open>
  Remote pages with a given title, an environment that serves a page titled \<open>!!!\<close>
  under the id \<open>abcdef1234567890\<close> and a page titled \<open>Notes\<close> under any other id,
  and a world in which \<open>./docs/notes.md\<close> already exists.
\<close>

definition page_with_title :: "string \<Rightarrow> pyval" where
  "page_with_title t =
     PDict [(''id'', PStr ''page''),
            (''properties'', PDict [(''title'', PDict [(''title'', PList [text_item (PStr t)])])])]"

definition pull_env :: env where
  "pull_env =
     quiet_env\<lparr>get_page := (\<lambda>page_id. if page_id = PStr ''abcdef1234567890''
                                         then Inr (page_with_title ''!!!'')
                                         else Inr (page_with_title ''Notes''))\<rparr>"

definition notes_world :: world where
  "notes_world = \<lparr>files = [''./docs/notes.md'' \<mapsto> Inr test_post], calls = [], clock = 0\<rparr>"

text \<open>
  The Markdown document of the integration test (\<open>tests/test_integration.py\<close>), line
  by line; the text ends with a newline, so the last line is empty.
\<close>

definition test_lines :: "string list" where
  "test_lines =
     [''# Test Heading'',
      [],
      ''This is a paragraph with **bold** and *italic* text.'',
      [],
      ''## Secondary Heading'',
      [],
      ''- List item 1'',
      ''- List item 2'',
      [],
      ''> This is a quote'',
      [],
      ''```python'',
      ''def hello_world():'',
      ''    print(\"Hello, world!\")'',
      ''```'',
      [],
      ''1. Numbered item 1'',
      ''2. Numbered item 2'',
      []]"

definition test_document :: string where
  "test_document = join [newline] test_lines"

section \<open>Properties of the block converter\<close>

lemma dropWhile_id_hd: "xs \<noteq> [] \<Longrightarrow> \<not> P (hd xs) \<Longrightarrow> dropWhile P xs = xs"
  by (cases xs) auto

lemma clean_strip: "clean s \<Longrightarrow> strip s = s"
  unfolding clean_def strip_def
  by (simp add: dropWhile_id_hd hd_rev)

lemma strip_clean: "strip s \<noteq> [] \<Longrightarrow> clean (strip s)"
proof -
  assume ne: "strip s \<noteq> []"
  define t where "t = dropWhile isspace s"
  define u where "u = dropWhile isspace (rev t)"
  have su: "strip s = rev u" by (simp add: strip_def t_def u_def)
  with ne have une: "u \<noteq> []" by simp
  then have tne: "t \<noteq> []" by (auto simp: u_def)
  have "\<not> isspace (hd u)" using une unfolding u_def by (rule hd_dropWhile)
  then have l: "\<not> isspace (last (strip s))" using une by (simp add: su last_rev)
  have "rev t = takeWhile isspace (rev t) @ u" by (simp add: u_def)
  then have "last (rev t) = last (takeWhile isspace (rev t) @ u)" by simp
  then have "last u = last (rev t)" using une by simp
  then have "hd (strip s) = hd t" using une tne by (simp add: su hd_rev last_rev)
  moreover have "\<not> isspace (hd t)" using tne unfolding t_def by (rule hd_dropWhile)
  ultimately show ?thesis using ne l by (simp add: clean_def)
qed

lemma strip_Nil: "strip [] = []" by (simp add: strip_def)

lemma split_nonempty: "split d s \<noteq> []"
  by (induction s) (auto split: list.splits)

lemma split_no_sep: "d \<notin> set s \<Longrightarrow> split d s = [s]"
  by (induction s) auto

lemma split_lines_free: "l \<in> set (split d s) \<Longrightarrow> d \<notin> set l"
  by (induction s arbitrary: l) (auto split: if_splits list.splits)

lemma split_append: "split d (a @ d # b) = split d a @ split d b"
proof (induction a)
  case Nil then show ?case by simp
next
  case (Cons c a)
  then show ?case using split_nonempty[of d a] by (auto split: list.splits)
qed

lemma split_join: "xs \<noteq> [] \<Longrightarrow> split d (join [d] xs) = concat (map (split d) xs)"
proof (induction "[d]" xs rule: join.induct)
  case 1 then show ?case by simp
next
  case (2 x) then show ?case by simp
next
  case (3 x y ys)
  then show ?case by (simp add: split_append)
qed

lemma join_split: "join [d] (split d s) = s"
proof (induction s)
  case Nil then show ?case by simp
next
  case (Cons c s)
  show ?case
  proof (cases "c = d")
    case True
    then show ?thesis using Cons split_nonempty[of d s] by (cases "split d s") auto
  next
    case False
    then show ?thesis using Cons split_nonempty[of d s]
      by (cases "split d s"; cases "tl (split d s)") auto
  qed
qed

declare blocks_of_lines.simps [simp del]

lemma not_space_chars:
  "\<not> isspace CHR ''#''" "\<not> isspace CHR ''`''" "\<not> isspace CHR ''-''" "\<not> isspace CHR ''*''"
  "\<not> isspace CHR ''>''" "\<not> isspace CHR ''1''" "\<not> isspace CHR ''.''" "isspace CHR '' ''"
  "isspace newline"
  by (simp_all add: isspace_def ord_def)

lemma set_strip: "set (strip s) \<subseteq> set s"
proof -
  have "set (strip s) \<subseteq> set (dropWhile isspace s)"
    unfolding strip_def using set_dropWhileD by fastforce
  also have "\<dots> \<subseteq> set s" using set_dropWhileD by fastforce
  finally show ?thesis .
qed

lemma dropWhile_last:
  assumes "s \<noteq> []" "\<not> P (last s)"
  shows "dropWhile P s \<noteq> []" "last (dropWhile P s) = last s"
proof -
  have "last s \<in> set s" using assms(1) by simp
  with assms(2) show ne: "dropWhile P s \<noteq> []" by (auto simp: dropWhile_eq_Nil_conv)
  have "s = takeWhile P s @ dropWhile P s" by simp
  then have "last s = last (takeWhile P s @ dropWhile P s)" by simp
  also have "\<dots> = last (dropWhile P s)" using ne by (rule last_appendR)
  finally show "last (dropWhile P s) = last s" by simp
qed

lemma strip_nonempty: "s \<noteq> [] \<Longrightarrow> \<not> isspace (last s) \<Longrightarrow> strip s \<noteq> []"
proof -
  assume a: "s \<noteq> []" "\<not> isspace (last s)"
  note d = dropWhile_last[of s isspace, OF a]
  have "\<not> isspace (hd (rev (dropWhile isspace s)))" using a d by (simp add: hd_rev)
  then have "dropWhile isspace (rev (dropWhile isspace s)) \<noteq> []" using d(1)
    by (simp add: dropWhile_id_hd)
  then show ?thesis by (simp add: strip_def)
qed

lemma startswith_nonempty: "startswith p s \<Longrightarrow> p \<noteq> [] \<Longrightarrow> s \<noteq> []"
  by (auto simp: startswith_def)

lemma bol_blank: "strip raw = [] \<Longrightarrow> blocks_of_lines (raw # rest) = blocks_of_lines rest"
  by (simp add: blocks_of_lines.simps)

lemma bol_heading:
  "strip raw \<noteq> [] \<Longrightarrow> heading_match (strip raw) = Some (h, t) \<Longrightarrow>
   blocks_of_lines (raw # rest) = create_heading_block t (int (length h)) # blocks_of_lines rest"
  by (simp add: blocks_of_lines.simps)

lemma bol_code:
  "heading_match (strip raw) = None \<Longrightarrow> startswith ''```'' (strip raw) \<Longrightarrow>
   blocks_of_lines (raw # rest) =
     create_code_block (join [newline] (takeWhile (\<lambda>l. \<not> is_fence l) rest)) (strip (drop 3 (strip raw)))
     # blocks_of_lines (drop 1 (dropWhile (\<lambda>l. \<not> is_fence l) rest))"
  using startswith_nonempty[of "''```''" "strip raw"] by (simp add: blocks_of_lines.simps)

lemma bol_bullet:
  "heading_match (strip raw) = None \<Longrightarrow> \<not> startswith ''```'' (strip raw) \<Longrightarrow>
   startswith ''- '' (strip raw) \<or> startswith ''* '' (strip raw) \<Longrightarrow>
   blocks_of_lines (raw # rest) = create_bullet_list_item (strip (drop 2 (strip raw))) # blocks_of_lines rest"
  using startswith_nonempty[of "''- ''" "strip raw"] startswith_nonempty[of "''* ''" "strip raw"]
  by (auto simp add: blocks_of_lines.simps)

lemma bol_numbered:
  "strip raw \<noteq> [] \<Longrightarrow> heading_match (strip raw) = None \<Longrightarrow> \<not> startswith ''```'' (strip raw) \<Longrightarrow>
   \<not> startswith ''- '' (strip raw) \<Longrightarrow> \<not> startswith ''* '' (strip raw) \<Longrightarrow>
   numbered_match (strip raw) = Some t \<Longrightarrow>
   blocks_of_lines (raw # rest) = create_numbered_list_item t # blocks_of_lines rest"
  by (simp add: blocks_of_lines.simps)

lemma bol_quote:
  "heading_match (strip raw) = None \<Longrightarrow> \<not> startswith ''```'' (strip raw) \<Longrightarrow>
   \<not> startswith ''- '' (strip raw) \<Longrightarrow> \<not> startswith ''* '' (strip raw) \<Longrightarrow>
   numbered_match (strip raw) = None \<Longrightarrow> startswith ''> '' (strip raw) \<Longrightarrow>
   blocks_of_lines (raw # rest) = create_quote_block (strip (drop 2 (strip raw))) # blocks_of_lines rest"
  using startswith_nonempty[of "''> ''" "strip raw"] by (simp add: blocks_of_lines.simps)

lemma bol_paragraph:
  "strip raw \<noteq> [] \<Longrightarrow> heading_match (strip raw) = None \<Longrightarrow> \<not> startswith ''```'' (strip raw) \<Longrightarrow>
   \<not> startswith ''- '' (strip raw) \<Longrightarrow> \<not> startswith ''* '' (strip raw) \<Longrightarrow>
   numbered_match (strip raw) = None \<Longrightarrow> \<not> startswith ''> '' (strip raw) \<Longrightarrow>
   blocks_of_lines (raw # rest) = create_paragraph_block (strip raw) # blocks_of_lines rest"
  by (simp add: blocks_of_lines.simps)

lemma spaced_text_clean:
  assumes "spaced_text s = Some t" "\<not> isspace (last s)"
  shows "clean t \<and> t = dropWhile isspace s"
proof -
  from assms(1) have sne: "s \<noteq> []" by (auto simp: spaced_text_def)
  note d = dropWhile_last[of s isspace, OF sne assms(2)]
  from assms(1) d(1) have t: "t = dropWhile isspace s"
    by (simp add: spaced_text_def Let_def split: if_splits)
  have "\<not> isspace (hd t)" unfolding t using d(1) by (rule hd_dropWhile)
  then show ?thesis using d t assms(2) by (simp add: clean_def)
qed

lemma spaced_text_space: "clean t \<Longrightarrow> spaced_text (CHR '' '' # t) = Some t"
  by (cases t) (auto simp: spaced_text_def clean_def not_space_chars)

lemma heading_matchD:
  assumes "heading_match line = Some (h, t)"
  shows "h = replicate (length h) (CHR ''#'')" "1 \<le> length h" "length h \<le> 3"
        "spaced_text (drop (length h) line) = Some t"
proof -
  from assms have h: "h = takeWhile (\<lambda>c. c = CHR ''#'') line"
    by (simp add: heading_match_def Let_def split: if_splits option.splits)
  have "\<forall>y\<in>set h. y = CHR ''#''" unfolding h by (auto dest: set_takeWhileD)
  then have "replicate (length h) (CHR ''#'') = h" by (rule replicate_length_same)
  then show "h = replicate (length h) (CHR ''#'')" by simp
  from assms show "1 \<le> length h" "length h \<le> 3" "spaced_text (drop (length h) line) = Some t"
    by (simp_all add: heading_match_def Let_def split: if_splits option.splits)
qed

lemma takeWhile_hashes:
  "c \<noteq> CHR ''#'' \<Longrightarrow> takeWhile (\<lambda>c. c = CHR ''#'') (replicate n (CHR ''#'') @ c # t) = replicate n (CHR ''#'')"
  by (induction n) simp_all

lemma heading_match_render:
  assumes "clean t" "1 \<le> n" "n \<le> 3"
  shows "heading_match (replicate n (CHR ''#'') @ CHR '' '' # t) = Some (replicate n (CHR ''#''), t)"
  using assms by (simp add: heading_match_def takeWhile_hashes Let_def spaced_text_space)

lemma heading_match_other:
  "s \<noteq> [] \<Longrightarrow> hd s \<noteq> CHR ''#'' \<Longrightarrow> heading_match s = None"
  by (cases s) (auto simp: heading_match_def)

lemmas block_defs = create_heading_block_def create_paragraph_block_def create_code_block_def
  create_quote_block_def create_bullet_list_item_def create_numbered_list_item_def rich_text_def

lemmas render_defs = block_markdown_lines_def block_text_def payload_text_def
  get_text_from_rich_text_def format_value_def

lemma render_heading:
  assumes "1 \<le> n" "n \<le> 3"
  shows "block_markdown_lines f (create_heading_block t (int n)) = Inr [replicate n (CHR ''#'') @ CHR '' '' # t]"
proof -
  from assms consider "n = 1" | "n = 2" | "n = 3" by linarith
  then show ?thesis
  proof cases
    case 1 then show ?thesis by (simp add: block_defs render_defs str_int_def ord_def Let_def)
  next
    case 2 then show ?thesis by (simp add: block_defs render_defs str_int_def ord_def Let_def numeral_2_eq_2)
  next
    case 3 then show ?thesis by (simp add: block_defs render_defs str_int_def ord_def Let_def numeral_3_eq_3)
  qed
qed

lemma render_paragraph: "block_markdown_lines f (create_paragraph_block t) = Inr [t]"
  by (simp add: block_defs render_defs)

lemma render_code:
  "block_markdown_lines f (create_code_block code lang) = Inr [''```'' @ lang, code, ''```'']"
  by (simp add: block_defs render_defs)

lemma render_quote: "block_markdown_lines f (create_quote_block t) = Inr [''> '' @ t]"
  by (simp add: block_defs render_defs)

lemma render_bullet: "block_markdown_lines f (create_bullet_list_item t) = Inr [''- '' @ t]"
  by (simp add: block_defs render_defs)

lemma render_numbered: "block_markdown_lines f (create_numbered_list_item t) = Inr [''1. '' @ t]"
  by (simp add: block_defs render_defs)

lemma bol_skip_blank: "blocks_of_lines ([] # X) = blocks_of_lines X"
  by (simp add: bol_blank strip_Nil)

lemma reparse_heading:
  assumes "clean t" "1 \<le> n" "n \<le> 3"
  shows "blocks_of_lines ((replicate n (CHR ''#'') @ CHR '' '' # t) # [] # X)
         = create_heading_block t (int n) # blocks_of_lines X"
proof -
  let ?raw = "replicate n (CHR ''#'') @ CHR '' '' # t"
  have "clean ?raw" using assms by (cases n) (simp_all add: clean_def not_space_chars)
  then have "strip ?raw = ?raw" by (rule clean_strip)
  then have s: "strip ?raw = ?raw" "strip (?raw @ []) = ?raw" by simp_all
  have "blocks_of_lines (?raw # [] # X) =
        create_heading_block t (int (length (replicate n (CHR ''#'')))) # blocks_of_lines ([] # X)"
    by (rule bol_heading) (simp_all add: s[simplified] heading_match_render[OF assms])
  then show ?thesis by (simp add: bol_skip_blank)
qed

lemma startswith_simps:
  "startswith p (p @ s)"
  "startswith (c # p) (d # s) \<longleftrightarrow> c = d \<and> startswith p s"
  "startswith [] s"
  by (auto simp add: startswith_def)

lemma numbered_match_other:
  "s \<noteq> [] \<Longrightarrow> \<not> isdecimal (hd s) \<Longrightarrow> numbered_match s = None"
  by (cases s) (auto simp: numbered_match_def)

lemma reparse_bullet:
  assumes "clean t"
  shows "blocks_of_lines ((''- '' @ t) # [] # X) = create_bullet_list_item t # blocks_of_lines X"
proof -
  define raw where "raw = ''- '' @ t"
  have "clean raw" using assms by (simp add: raw_def clean_def not_space_chars)
  then have s: "strip raw = raw" by (rule clean_strip)
  have f: "heading_match raw = None" "\<not> startswith ''```'' raw" "startswith ''- '' raw"
          "drop 2 raw = t"
    by (simp_all add: raw_def heading_match_other startswith_simps)
  have "blocks_of_lines (raw # [] # X) =
        create_bullet_list_item (strip (drop 2 (strip raw))) # blocks_of_lines ([] # X)"
    by (rule bol_bullet) (simp_all add: s f)
  then show ?thesis using assms unfolding s f bol_skip_blank by (simp add: raw_def clean_strip)
qed

lemma reparse_quote:
  assumes "clean t"
  shows "blocks_of_lines ((''> '' @ t) # [] # X) = create_quote_block t # blocks_of_lines X"
proof -
  define raw where "raw = ''> '' @ t"
  have "clean raw" using assms by (simp add: raw_def clean_def not_space_chars)
  then have s: "strip raw = raw" by (rule clean_strip)
  have f: "heading_match raw = None" "\<not> startswith ''```'' raw" "\<not> startswith ''- '' raw"
          "\<not> startswith ''* '' raw" "numbered_match raw = None" "startswith ''> '' raw"
          "drop 2 raw = t"
    by (simp_all add: raw_def heading_match_other startswith_simps numbered_match_other
          isdecimal_def ord_def)
  have "blocks_of_lines (raw # [] # X) =
        create_quote_block (strip (drop 2 (strip raw))) # blocks_of_lines ([] # X)"
    by (rule bol_quote) (simp_all add: s f)
  then show ?thesis using assms unfolding s f bol_skip_blank by (simp add: raw_def clean_strip)
qed

lemma numbered_match_render:
  assumes "clean t"
  shows "numbered_match (CHR ''1'' # CHR ''.'' # CHR '' '' # t) = Some t"
  using assms by (simp add: numbered_match_def isdecimal_def ord_def spaced_text_space)

lemma reparse_numbered:
  assumes "clean t"
  shows "blocks_of_lines ((''1. '' @ t) # [] # X) = create_numbered_list_item t # blocks_of_lines X"
proof -
  define raw where "raw = ''1. '' @ t"
  have c: "clean raw" using assms by (simp add: raw_def clean_def not_space_chars)
  then have s: "strip raw = raw" by (rule clean_strip)
  have f: "raw \<noteq> []" "heading_match raw = None" "\<not> startswith ''```'' raw"
          "\<not> startswith ''- '' raw" "\<not> startswith ''* '' raw" "numbered_match raw = Some t"
    by (simp_all add: raw_def heading_match_other startswith_simps numbered_match_render[OF assms])
  have "blocks_of_lines (raw # [] # X) =
        create_numbered_list_item t # blocks_of_lines ([] # X)"
    by (rule bol_numbered) (simp_all add: s f)
  then show ?thesis unfolding bol_skip_blank by (simp add: raw_def)
qed

lemma is_fence_closing: "is_fence ''```''"
  by (simp add: is_fence_def strip_def startswith_def not_space_chars)

lemma not_fence_blank: "\<not> is_fence []"
  by (simp add: is_fence_def strip_def startswith_def)

lemma reparse_code:
  assumes "lang = [] \<or> clean lang" "\<forall>l\<in>set cl. \<not> is_fence l"
  shows "blocks_of_lines ((''```'' @ lang) # cl @ ''```'' # [] # X)
         = create_code_block (join [newline] cl) lang # blocks_of_lines X"
proof -
  define raw where "raw = ''```'' @ lang"
  define tail where "tail = cl @ ''```'' # [] # X"
  have "clean raw" using assms(1) by (auto simp add: raw_def clean_def not_space_chars)
  then have s: "strip raw = raw" by (rule clean_strip)
  have sl: "strip lang = lang" using assms(1) by (auto simp: strip_Nil clean_strip)
  have f: "heading_match raw = None" "startswith ''```'' raw" "drop 3 raw = lang"
    by (simp_all add: raw_def heading_match_other startswith_simps)
  have tw: "takeWhile (\<lambda>l. \<not> is_fence l) tail = cl"
    unfolding tail_def using assms(2) by (simp add: is_fence_closing)
  have dw: "dropWhile (\<lambda>l. \<not> is_fence l) tail = ''```'' # [] # X"
    unfolding tail_def using assms(2) by (simp add: is_fence_closing)
  have "blocks_of_lines (raw # tail) =
        create_code_block (join [newline] (takeWhile (\<lambda>l. \<not> is_fence l) tail))
          (strip (drop 3 (strip raw)))
        # blocks_of_lines (drop 1 (dropWhile (\<lambda>l. \<not> is_fence l) tail))"
    by (rule bol_code) (simp_all add: s f)
  then have "blocks_of_lines (raw # tail) = create_code_block (join [newline] cl) lang # blocks_of_lines X"
    unfolding s f sl tw dw by (simp add: bol_skip_blank)
  then show ?thesis by (simp add: raw_def tail_def)
qed

lemma reparses_Nil: "reparses f []"
  by (simp add: reparses_def blocks_of_lines.simps)

lemma reparses_blank:
  assumes "strip raw = []" "reparses f rest"
  shows "reparses f (raw # rest)"
  using assms by (simp add: reparses_def bol_blank)

lemma reparses_simple:
  assumes step: "blocks_of_lines (raw # rest) = b # blocks_of_lines rest"
    and render: "block_markdown_lines f b = Inr [r]"
    and free: "newline \<notin> set r"
    and again: "\<And>X. blocks_of_lines (r # [] # X) = b # blocks_of_lines X"
    and IH: "reparses f rest"
  shows "reparses f (raw # rest)"
proof -
  from IH obtain out where out: "markdown_lines_of f (blocks_of_lines rest) = Inr out"
    and re: "\<And>X. blocks_of_lines (concat (map (split newline) out) @ X)
              = blocks_of_lines rest @ blocks_of_lines X"
    by (auto simp: reparses_def)
  have m: "markdown_lines_of f (blocks_of_lines (raw # rest)) = Inr (r # [] # out)"
    by (simp add: step render out)
  have "\<And>X. blocks_of_lines (concat (map (split newline) (r # [] # out)) @ X)
        = blocks_of_lines (raw # rest) @ blocks_of_lines X"
    by (simp add: split_no_sep[OF free] again re step)
  with m show ?thesis unfolding reparses_def by blast
qed

lemma split_join_lines:
  assumes "\<forall>l\<in>set cl. newline \<notin> set l"
  shows "split newline (join [newline] cl) = (if cl = [] then [[]] else cl)"
proof (cases "cl = []")
  case True then show ?thesis by simp
next
  case False
  have "concat (map (split newline) cl) = cl" using assms
    by (induction cl) (simp_all add: split_no_sep)
  with False show ?thesis by (simp add: split_join)
qed

lemma reparses_code:
  assumes step: "blocks_of_lines (raw # rest) =
      create_code_block (join [newline] (takeWhile (\<lambda>l. \<not> is_fence l) rest)) lang
      # blocks_of_lines (drop 1 (dropWhile (\<lambda>l. \<not> is_fence l) rest))"
    and lang: "lang = [] \<or> clean lang" "newline \<notin> set lang"
    and free: "\<forall>l\<in>set rest. newline \<notin> set l"
    and IH: "reparses f (drop 1 (dropWhile (\<lambda>l. \<not> is_fence l) rest))"
  shows "reparses f (raw # rest)"
proof -
  define cl where "cl = takeWhile (\<lambda>l. \<not> is_fence l) rest"
  define after where "after = drop 1 (dropWhile (\<lambda>l. \<not> is_fence l) rest)"
  define cl' where "cl' = (if cl = [] then [[]] else cl)"
  from IH obtain out where out: "markdown_lines_of f (blocks_of_lines after) = Inr out"
    and re: "\<And>X. blocks_of_lines (concat (map (split newline) out) @ X)
              = blocks_of_lines after @ blocks_of_lines X"
    by (auto simp: reparses_def after_def)
  have clfree: "\<forall>l\<in>set cl. newline \<notin> set l"
    using free unfolding cl_def by (auto dest: set_takeWhileD)
  have clnf: "\<forall>l\<in>set cl. \<not> is_fence l"
    unfolding cl_def by (auto dest: set_takeWhileD)
  then have cl'nf: "\<forall>l\<in>set cl'. \<not> is_fence l" by (simp add: cl'_def not_fence_blank)
  have j: "join [newline] cl' = join [newline] cl" by (simp add: cl'_def)
  have sp: "split newline (join [newline] cl) = cl'"
    unfolding cl'_def by (rule split_join_lines[OF clfree])
  have fl: "split newline (''```'' @ lang) = [''```'' @ lang]"
    by (rule split_no_sep) (simp add: lang)
  have cf: "split newline ''```'' = [''```'']" by simp
  have st: "blocks_of_lines (raw # rest) = create_code_block (join [newline] cl) lang # blocks_of_lines after"
    using step by (simp add: cl_def after_def)
  have m: "markdown_lines_of f (blocks_of_lines (raw # rest))
           = Inr ([''```'' @ lang, join [newline] cl, ''```''] @ [[]] @ out)"
    unfolding st by (simp add: render_code out)
  have c: "\<And>X. concat (map (split newline) ([''```'' @ lang, join [newline] cl, ''```''] @ [[]] @ out)) @ X
           = (''```'' @ lang) # cl' @ ''```'' # [] # (concat (map (split newline) out) @ X)"
    using fl sp by simp
  have "\<And>X. blocks_of_lines (concat (map (split newline) ([''```'' @ lang, join [newline] cl, ''```''] @ [[]] @ out)) @ X)
        = blocks_of_lines (raw # rest) @ blocks_of_lines X"
    unfolding c st reparse_code[OF lang(1) cl'nf] j re by simp
  with m show ?thesis unfolding reparses_def by blast
qed

lemma numbered_matchD:
  assumes "numbered_match line = Some t" "clean line"
  shows "clean t" "set t \<subseteq> set line"
proof -
  from assms(1) obtain after where l: "dropWhile isdecimal line = CHR ''.'' # after"
    and sp: "spaced_text after = Some t"
    by (auto simp: numbered_match_def Let_def split: if_splits list.splits)
  from sp have ane: "after \<noteq> []" by (auto simp: spaced_text_def)
  have "line = takeWhile isdecimal line @ CHR ''.'' # after"
    using l by (metis takeWhile_dropWhile_id)
  then have la: "last line = last after" and sub: "set after \<subseteq> set line"
    using ane by (metis last_appendR last_ConsR list.distinct(1), metis set_append set_subset_Cons sup.coboundedI2 list.set_intros(2) subsetI UnI2)
  from assms(2) la have "\<not> isspace (last after)" by (simp add: clean_def)
  from spaced_text_clean[OF sp this] show "clean t" by (rule conjunct1)
  from spaced_text_clean[OF sp \<open>\<not> isspace (last after)\<close>] have "set t \<subseteq> set after"
    by (auto dest: set_dropWhileD)
  with sub show "set t \<subseteq> set line" by blast
qed

lemma heading_match_clean:
  assumes "heading_match line = Some (h, t)" "clean line"
  shows "clean t" "set t \<subseteq> set line"
proof -
  note d = heading_matchD[OF assms(1)]
  from d(4) have ne: "drop (length h) line \<noteq> []" by (auto simp: spaced_text_def)
  then have "last (drop (length h) line) = last line" by (simp add: last_drop)
  with assms(2) have ns: "\<not> isspace (last (drop (length h) line))" by (simp add: clean_def)
  from spaced_text_clean[OF d(4) ns] show "clean t" by (rule conjunct1)
  from spaced_text_clean[OF d(4) ns] have "set t \<subseteq> set (drop (length h) line)"
    by (auto dest: set_dropWhileD)
  then show "set t \<subseteq> set line" by (auto dest: in_set_dropD)
qed

lemma prefixed_text_clean:
  assumes "clean line" "startswith [c, CHR '' ''] line"
  shows "clean (strip (drop 2 line))"
proof -
  from assms(2) obtain r where l: "line = c # CHR '' '' # r"
    by (cases line; cases "tl line") (auto simp: startswith_def)
  have "r \<noteq> []" using assms(1) l by (auto simp: clean_def not_space_chars)
  moreover then have "last r = last line" by (simp add: l)
  ultimately have "strip r \<noteq> []" using assms(1) by (intro strip_nonempty) (simp_all add: clean_def)
  then show ?thesis by (simp add: l strip_clean)
qed

lemma reparses_all:
  assumes "\<forall>l\<in>set ls. newline \<notin> set l"
  shows "reparses f ls"
  using assms
proof (induction ls rule: length_induct)
  case (1 ls)
  show ?case
  proof (cases ls)
    case Nil
    then show ?thesis by (simp add: reparses_Nil)
  next
    case (Cons raw rest)
    define line where "line = strip raw"
    define after where "after = drop 1 (dropWhile (\<lambda>l. \<not> is_fence l) rest)"
    from "1.prems" Cons have free: "\<forall>l\<in>set rest. newline \<notin> set l" and "newline \<notin> set raw"
      by simp_all
    then have linefree: "newline \<notin> set line" using set_strip[of raw] by (auto simp: line_def)
    have IHrest: "reparses f rest" using "1.IH" free Cons by simp
    have "length after \<le> length rest"
      unfolding after_def using length_dropWhile_le[of "\<lambda>l. \<not> is_fence l" rest] by simp
    moreover have "\<forall>l\<in>set after. newline \<notin> set l"
      using free unfolding after_def by (auto dest!: in_set_dropD set_dropWhileD)
    ultimately have IHafter: "reparses f after" using "1.IH" Cons by simp
    show ?thesis
    proof (cases "line = []")
      case True
      then show ?thesis unfolding Cons using IHrest by (simp add: reparses_blank line_def)
    next
      case False
      then have cl: "clean line" unfolding line_def by (rule strip_clean)
      then have sl: "strip line = line" by (rule clean_strip)
      show ?thesis
      proof (cases "heading_match line")
        case (Some ht)
        obtain h t where ht: "ht = (h, t)" by (cases ht)
        note hm = Some[unfolded ht]
        note d = heading_matchD[OF hm]
        note c = heading_match_clean[OF hm cl]
        show ?thesis unfolding Cons
        proof (rule reparses_simple[OF _ _ _ _ IHrest])
          show "blocks_of_lines (raw # rest) = create_heading_block t (int (length h)) # blocks_of_lines rest"
            using False hm unfolding line_def by (rule bol_heading)
          show "block_markdown_lines f (create_heading_block t (int (length h)))
                = Inr [replicate (length h) (CHR ''#'') @ CHR '' '' # t]"
            using d(2,3) by (rule render_heading)
          show "newline \<notin> set (replicate (length h) (CHR ''#'') @ CHR '' '' # t)"
            using c(2) linefree by auto
          show "\<And>X. blocks_of_lines ((replicate (length h) (CHR ''#'') @ CHR '' '' # t) # [] # X)
                = create_heading_block t (int (length h)) # blocks_of_lines X"
            using c(1) d(2,3) by (rule reparse_heading)
        qed
      next
        case None
        note nh = None
        show ?thesis
        proof (cases "startswith ''```'' line")
          case True
          define lang where "lang = strip (drop 3 line)"
          have l1: "lang = [] \<or> clean lang" unfolding lang_def using strip_clean by blast
          have l2: "newline \<notin> set lang"
            unfolding lang_def using set_strip[of "drop 3 line"] linefree by (auto dest: in_set_dropD)
          show ?thesis unfolding Cons
          proof (rule reparses_code[OF _ l1 l2 free])
            show "blocks_of_lines (raw # rest) =
              create_code_block (join [newline] (takeWhile (\<lambda>l. \<not> is_fence l) rest)) lang
              # blocks_of_lines (drop 1 (dropWhile (\<lambda>l. \<not> is_fence l) rest))"
              unfolding lang_def line_def using nh True unfolding line_def by (rule bol_code)
            show "reparses f (drop 1 (dropWhile (\<lambda>l. \<not> is_fence l) rest))"
              using IHafter by (simp add: after_def)
          qed
        next
          case False
          note nf = False
          show ?thesis
          proof (cases "startswith ''- '' line \<or> startswith ''* '' line")
            case True
            define t where "t = strip (drop 2 line)"
            have ct: "clean t" unfolding t_def using True cl by (auto intro: prefixed_text_clean)
            have tf: "newline \<notin> set t"
              unfolding t_def using set_strip[of "drop 2 line"] linefree by (auto dest: in_set_dropD)
            show ?thesis unfolding Cons
            proof (rule reparses_simple[OF _ _ _ _ IHrest])
              show "blocks_of_lines (raw # rest) = create_bullet_list_item t # blocks_of_lines rest"
                unfolding t_def line_def using nh nf True unfolding line_def by (rule bol_bullet)
              show "block_markdown_lines f (create_bullet_list_item t) = Inr [''- '' @ t]"
                by (rule render_bullet)
              show "newline \<notin> set (''- '' @ t)" using tf by simp
              show "\<And>X. blocks_of_lines ((''- '' @ t) # [] # X) = create_bullet_list_item t # blocks_of_lines X"
                using ct by (rule reparse_bullet)
            qed
          next
            case False
            then have nb: "\<not> startswith ''- '' line" "\<not> startswith ''* '' line" by simp_all
            show ?thesis
            proof (cases "numbered_match line")
              case (Some t)
              note c = numbered_matchD[OF Some cl]
              show ?thesis unfolding Cons
              proof (rule reparses_simple[OF _ _ _ _ IHrest])
                show "blocks_of_lines (raw # rest) = create_numbered_list_item t # blocks_of_lines rest"
                  using \<open>line \<noteq> []\<close> nh nf nb Some unfolding line_def by (rule bol_numbered)
                show "block_markdown_lines f (create_numbered_list_item t) = Inr [''1. '' @ t]"
                  by (rule render_numbered)
                show "newline \<notin> set (''1. '' @ t)" using c(2) linefree by auto
                show "\<And>X. blocks_of_lines ((''1. '' @ t) # [] # X) = create_numbered_list_item t # blocks_of_lines X"
                  using c(1) by (rule reparse_numbered)
              qed
            next
              case None
              note nn = None
              show ?thesis
              proof (cases "startswith ''> '' line")
                case True
                define t where "t = strip (drop 2 line)"
                have ct: "clean t" unfolding t_def using True cl by (auto intro: prefixed_text_clean)
                have tf: "newline \<notin> set t"
                  unfolding t_def using set_strip[of "drop 2 line"] linefree by (auto dest: in_set_dropD)
                show ?thesis unfolding Cons
                proof (rule reparses_simple[OF _ _ _ _ IHrest])
                  show "blocks_of_lines (raw # rest) = create_quote_block t # blocks_of_lines rest"
                    unfolding t_def line_def using nh nf nb nn True unfolding line_def by (rule bol_quote)
                  show "block_markdown_lines f (create_quote_block t) = Inr [''> '' @ t]"
                    by (rule render_quote)
                  show "newline \<notin> set (''> '' @ t)" using tf by simp
                  show "\<And>X. blocks_of_lines ((''> '' @ t) # [] # X) = create_quote_block t # blocks_of_lines X"
                    using ct by (rule reparse_quote)
                qed
              next
                case False
                show ?thesis unfolding Cons
                proof (rule reparses_simple[OF _ _ _ _ IHrest])
                  show "blocks_of_lines (raw # rest) = create_paragraph_block line # blocks_of_lines rest"
                    unfolding line_def using \<open>line \<noteq> []\<close> nh nf nb nn False unfolding line_def
                    by (rule bol_paragraph)
                  show "block_markdown_lines f (create_paragraph_block line) = Inr [line]"
                    by (rule render_paragraph)
                  show "newline \<notin> set line" by (rule linefree)
                  show "\<And>X. blocks_of_lines (line # [] # X) = create_paragraph_block line # blocks_of_lines X"
                  proof -
                    fix X
                    have "blocks_of_lines (line # [] # X) = create_paragraph_block (strip line) # blocks_of_lines ([] # X)"
                      by (rule bol_paragraph) (simp_all add: sl \<open>line \<noteq> []\<close> nh nf nb nn False)
                    then show "blocks_of_lines (line # [] # X) = create_paragraph_block line # blocks_of_lines X"
                      by (simp add: sl bol_skip_blank)
                  qed
                qed
              qed
            qed
          qed
        qed
      qed
    qed
  qed
qed

text \<open>
  Claim C2. For every body text \<open>b\<close>, converting the blocks of \<open>b\<close> back to text
  succeeds, and parsing that text again yields exactly the block sequence of the first
  parse. \<open>str_of\<close> is Python's \<open>str\<close> on values that are not strings; the result
  does not depend on it.
\<close>

theorem roundtrip_idempotent:
  "\<exists>text. blocks_to_markdown str_of (markdown_to_blocks b) = Inr text \<and>
          markdown_to_blocks text = markdown_to_blocks b"
proof -
  let ?ls = "split newline b"
  have "\<forall>l\<in>set ?ls. newline \<notin> set l" by (auto dest: split_lines_free)
  then have "reparses str_of ?ls" by (rule reparses_all)
  then obtain out where out: "markdown_lines_of str_of (blocks_of_lines ?ls) = Inr out"
    and re: "\<And>X. blocks_of_lines (concat (map (split newline) out) @ X)
              = blocks_of_lines ?ls @ blocks_of_lines X"
    by (auto simp: reparses_def)
  have t: "blocks_to_markdown str_of (markdown_to_blocks b) = Inr (join [newline] out)"
    by (simp add: blocks_to_markdown_def markdown_to_blocks_def out)
  have "blocks_of_lines (split newline (join [newline] out)) = blocks_of_lines ?ls"
  proof (cases "out = []")
    case True
    with re[of "[]"] have "blocks_of_lines ?ls = []" by (simp add: blocks_of_lines.simps(1))
    with True show ?thesis by (simp add: bol_skip_blank blocks_of_lines.simps(1))
  next
    case False
    then show ?thesis using re[of "[]"] by (simp add: split_join blocks_of_lines.simps(1))
  qed
  with t show ?thesis by (simp add: markdown_to_blocks_def)
qed

text \<open>Claim C2 at a heading line.\<close>

theorem roundtrip_idempotent_witness:
  "\<exists>text. blocks_to_markdown (\<lambda>v. []) (markdown_to_blocks ''# Title'') = Inr text \<and>
          markdown_to_blocks text = markdown_to_blocks ''# Title''"
  by (rule roundtrip_idempotent)

lemma block_parts_simps:
  "1 \<le> n \<Longrightarrow> n \<le> 3 \<Longrightarrow>
     block_parts (create_heading_block text (int n)) = Some (''heading_'' @ str_int (int n), text, None)"
  "block_parts (create_paragraph_block text) = Some (''paragraph'', text, None)"
  "block_parts (create_code_block text lang) = Some (''code'', text, Some lang)"
  "block_parts (create_quote_block text) = Some (''quote'', text, None)"
  "block_parts (create_bullet_list_item text) = Some (''bulleted_list_item'', text, None)"
  "block_parts (create_numbered_list_item text) = Some (''numbered_list_item'', text, None)"
  by (simp_all add: block_parts_def payload_parts_def rich_text_content_def block_defs Let_def)

lemma strip_decomp:
  "\<exists>a b. s = a @ strip s @ b \<and> (\<forall>c\<in>set a. isspace c) \<and> (\<forall>c\<in>set b. isspace c)"
proof -
  define u where "u = dropWhile isspace s"
  have "rev u = takeWhile isspace (rev u) @ dropWhile isspace (rev u)" by simp
  then have "rev (rev u) = rev (takeWhile isspace (rev u) @ dropWhile isspace (rev u))"
    by (rule arg_cong)
  then have "u = rev (dropWhile isspace (rev u)) @ rev (takeWhile isspace (rev u))"
    by (simp only: rev_rev_ident rev_append)
  then have u: "u = strip s @ rev (takeWhile isspace (rev u))"
    by (simp only: strip_def u_def)
  have "s = takeWhile isspace s @ u" by (simp add: u_def)
  then have "s = takeWhile isspace s @ strip s @ rev (takeWhile isspace (rev u))"
    using u by simp
  moreover have "\<forall>c\<in>set (takeWhile isspace s). isspace c" by (auto dest: set_takeWhileD)
  moreover have "\<forall>c\<in>set (rev (takeWhile isspace (rev u))). isspace c" by (auto dest: set_takeWhileD)
  ultimately show ?thesis by blast
qed

lemma strip_sandwich:
  assumes "clean m" "\<forall>c\<in>set a. isspace c" "\<forall>c\<in>set b. isspace c"
  shows "strip (a @ m @ b) = m"
proof -
  from assms(1) have mne: "m \<noteq> []" and h: "\<not> isspace (hd m)" and l: "\<not> isspace (last m)"
    by (simp_all add: clean_def)
  have "dropWhile isspace (a @ m @ b) = dropWhile isspace (m @ b)"
    using assms(2) by (simp add: dropWhile_append2)
  also have "\<dots> = m @ b" using mne h by (simp add: dropWhile_id_hd)
  finally have d: "dropWhile isspace (a @ m @ b) = m @ b" .
  have "\<And>c. c \<in> set (rev b) \<Longrightarrow> isspace c" using assms(3) by simp
  then have "dropWhile isspace (rev b @ rev m) = dropWhile isspace (rev m)"
    by (rule dropWhile_append2)
  then have "dropWhile isspace (rev (m @ b)) = dropWhile isspace (rev m)"
    by (simp only: rev_append)
  also have "\<dots> = rev m" using mne l by (simp add: dropWhile_id_hd hd_rev)
  finally show ?thesis by (simp add: strip_def d)
qed

lemma bol_split_join:
  assumes "\<forall>l\<in>set ls. newline \<notin> set l"
  shows "blocks_of_lines (split newline (join [newline] ls)) = blocks_of_lines ls"
  using assms by (simp add: split_join_lines bol_skip_blank)

text \<open>
  The parser's loop line by line: what a fence line and any other line contribute, and
  that the blocks of a list of lines split at any point with an even number of fence
  lines before it.
\<close>

lemma bol_fence:
  assumes "is_fence raw"
  shows "blocks_of_lines (raw # rest) =
     create_code_block (join [newline] (takeWhile (\<lambda>l. \<not> is_fence l) rest)) (strip (drop 3 (strip raw)))
     # blocks_of_lines (drop 1 (dropWhile (\<lambda>l. \<not> is_fence l) rest))"
proof -
  from assms have sw: "startswith ''```'' (strip raw)" by (simp add: is_fence_def)
  then have "strip raw \<noteq> []" "hd (strip raw) \<noteq> CHR ''#''"
    by (cases "strip raw"; simp add: startswith_def)+
  then have nh: "heading_match (strip raw) = None" by (rule heading_match_other)
  show ?thesis using nh sw by (rule bol_code)
qed

lemma heading_tag:
  assumes "1 \<le> n" "n \<le> 3"
  shows "''heading_'' @ str_int (int n) \<in> set block_tags"
    "''heading_'' @ str_int (int n) \<notin> set [''code'', ''paragraph'', ''quote'', ''bulleted_list_item'', ''numbered_list_item'']"
proof -
  from assms consider "n = 1" | "n = 2" | "n = 3" by linarith
  then show "''heading_'' @ str_int (int n) \<in> set block_tags"
    by cases (simp_all add: block_tags_def str_int_def)
  show "''heading_'' @ str_int (int n) \<notin> set [''code'', ''paragraph'', ''quote'', ''bulleted_list_item'', ''numbered_list_item'']"
    by simp
qed

lemma bol_plain:
  assumes "\<not> is_fence raw" "strip raw \<noteq> []"
  shows "\<exists>b parts. (\<forall>rest. blocks_of_lines (raw # rest) = b # blocks_of_lines rest) \<and>
           block_parts b = Some parts \<and> fst parts \<in> set block_tags \<and>
           (\<forall>rest. carries_line raw rest parts)"
proof -
  define line where "line = strip raw"
  have ne: "line \<noteq> []" using assms(2) by (simp add: line_def)
  have nf: "\<not> startswith ''```'' line" using assms(1) by (simp add: is_fence_def line_def)
  show ?thesis
  proof (cases "heading_match line")
    case (Some ht)
    obtain h t where ht: "ht = (h, t)" by (cases ht)
    have hm: "heading_match (strip raw) = Some (h, t)" using Some ht by (simp add: line_def)
    note d = heading_matchD[OF hm]
    have 1: "\<forall>rest. blocks_of_lines (raw # rest) = create_heading_block t (int (length h)) # blocks_of_lines rest"
      using bol_heading[OF assms(2) hm] by simp
    have 2: "block_parts (create_heading_block t (int (length h)))
               = Some (''heading_'' @ str_int (int (length h)), t, None)"
      using d(2,3) by (rule block_parts_simps(1))
    have 3: "fst (''heading_'' @ str_int (int (length h)), t, None :: string option) \<in> set block_tags"
      using heading_tag(1)[OF d(2,3)] by simp
    have 4: "\<forall>rest. carries_line raw rest (''heading_'' @ str_int (int (length h)), t, None)"
      using hm heading_tag(2)[OF d(2,3)] by (simp add: carries_line_def Let_def)
    show ?thesis
      apply (rule exI[of _ "create_heading_block t (int (length h))"])
      apply (rule exI[of _ "(''heading_'' @ str_int (int (length h)), t, None)"])
      apply (intro conjI)
         apply (rule 1)
        apply (rule 2)
       apply (rule 3)
      apply (rule 4)
      done
  next
    case None
    then have nh: "heading_match (strip raw) = None" by (simp add: line_def)
    have nf': "\<not> startswith ''```'' (strip raw)" using nf by (simp add: line_def)
    show ?thesis
    proof (cases "startswith ''- '' line \<or> startswith ''* '' line")
      case True
      then have b: "startswith ''- '' (strip raw) \<or> startswith ''* '' (strip raw)" by (simp add: line_def)
      have 1: "\<forall>rest. blocks_of_lines (raw # rest)
                 = create_bullet_list_item (strip (drop 2 (strip raw))) # blocks_of_lines rest"
        using bol_bullet[OF nh nf' b] by simp
      have 4: "\<forall>rest. carries_line raw rest (''bulleted_list_item'', strip (drop 2 (strip raw)), None)"
        using b by (simp add: carries_line_def Let_def)
      show ?thesis
        apply (rule exI[of _ "create_bullet_list_item (strip (drop 2 (strip raw)))"])
        apply (rule exI[of _ "(''bulleted_list_item'', strip (drop 2 (strip raw)), None)"])
        apply (intro conjI)
           apply (rule 1)
          apply (rule block_parts_simps)
         apply (simp add: block_tags_def)
        apply (rule 4)
        done
    next
      case False
      then have nb: "\<not> startswith ''- '' (strip raw)" "\<not> startswith ''* '' (strip raw)"
        by (simp_all add: line_def)
      show ?thesis
      proof (cases "numbered_match line")
        case (Some t)
        then have nm: "numbered_match (strip raw) = Some t" by (simp add: line_def)
        have 1: "\<forall>rest. blocks_of_lines (raw # rest) = create_numbered_list_item t # blocks_of_lines rest"
          using bol_numbered[OF assms(2) nh nf' nb nm] by simp
        have 4: "\<forall>rest. carries_line raw rest (''numbered_list_item'', t, None)"
          using nm by (simp add: carries_line_def Let_def)
        show ?thesis
          apply (rule exI[of _ "create_numbered_list_item t"])
          apply (rule exI[of _ "(''numbered_list_item'', t, None)"])
          apply (intro conjI)
             apply (rule 1)
            apply (rule block_parts_simps)
           apply (simp add: block_tags_def)
          apply (rule 4)
          done
      next
        case None
        then have nn: "numbered_match (strip raw) = None" by (simp add: line_def)
        show ?thesis
        proof (cases "startswith ''> '' line")
          case True
          then have q: "startswith ''> '' (strip raw)" by (simp add: line_def)
          have 1: "\<forall>rest. blocks_of_lines (raw # rest)
                     = create_quote_block (strip (drop 2 (strip raw))) # blocks_of_lines rest"
            using bol_quote[OF nh nf' nb nn q] by simp
          have 4: "\<forall>rest. carries_line raw rest (''quote'', strip (drop 2 (strip raw)), None)"
            using q by (simp add: carries_line_def Let_def)
          show ?thesis
            apply (rule exI[of _ "create_quote_block (strip (drop 2 (strip raw)))"])
            apply (rule exI[of _ "(''quote'', strip (drop 2 (strip raw)), None)"])
            apply (intro conjI)
               apply (rule 1)
              apply (rule block_parts_simps)
             apply (simp add: block_tags_def)
            apply (rule 4)
            done
        next
          case False
          then have nq: "\<not> startswith ''> '' (strip raw)" by (simp add: line_def)
          have 1: "\<forall>rest. blocks_of_lines (raw # rest)
                     = create_paragraph_block (strip raw) # blocks_of_lines rest"
            using bol_paragraph[OF assms(2) nh nf' nb nn nq] by simp
          have 4: "\<forall>rest. carries_line raw rest (''paragraph'', strip raw, None)"
            using assms(2) by (simp add: carries_line_def Let_def)
          show ?thesis
            apply (rule exI[of _ "create_paragraph_block (strip raw)"])
            apply (rule exI[of _ "(''paragraph'', strip raw, None)"])
            apply (intro conjI)
               apply (rule 1)
              apply (rule block_parts_simps)
             apply (simp add: block_tags_def)
            apply (rule 4)
            done
        qed
      qed
    qed
  qed
qed

lemma not_fence_strip_Nil: "strip raw = [] \<Longrightarrow> \<not> is_fence raw"
  by (simp add: is_fence_def startswith_def)

lemma odd_fences_split:
  assumes "odd (length (filter is_fence rest))"
  shows "\<exists>closing after. dropWhile (\<lambda>l. \<not> is_fence l) rest = closing # after \<and> is_fence closing \<and>
           even (length (filter is_fence after)) \<and> length after < length rest \<and>
           rest = takeWhile (\<lambda>l. \<not> is_fence l) rest @ closing # after"
proof -
  have "filter is_fence rest \<noteq> []" using assms by (cases "filter is_fence rest") auto
  then have "\<exists>l\<in>set rest. is_fence l" by (simp add: filter_empty_conv)
  then have "dropWhile (\<lambda>l. \<not> is_fence l) rest \<noteq> []" by (simp add: dropWhile_eq_Nil_conv)
  then obtain closing after where d: "dropWhile (\<lambda>l. \<not> is_fence l) rest = closing # after"
    by (cases "dropWhile (\<lambda>l. \<not> is_fence l) rest") auto
  have c: "is_fence closing" using hd_dropWhile[of "\<lambda>l. \<not> is_fence l" rest] d by simp
  have r: "rest = takeWhile (\<lambda>l. \<not> is_fence l) rest @ closing # after"
    using takeWhile_dropWhile_id[of "\<lambda>l. \<not> is_fence l" rest] d by simp
  have "filter is_fence (takeWhile (\<lambda>l. \<not> is_fence l) rest) = []"
    by (auto simp: filter_empty_conv dest: set_takeWhileD)
  then have "length (filter is_fence rest) = Suc (length (filter is_fence after))"
    using c by (subst r) simp
  then have e: "even (length (filter is_fence after))" using assms by simp
  have "length rest = length (takeWhile (\<lambda>l. \<not> is_fence l) rest) + Suc (length after)"
    by (subst r) simp
  then have l: "length after < length rest" by simp
  show ?thesis using d c e l r by blast
qed

lemma bol_append:
  "even (length (filter is_fence pre)) \<Longrightarrow>
   blocks_of_lines (pre @ X) = blocks_of_lines pre @ blocks_of_lines X"
proof (induction pre rule: length_induct)
  case (1 pre)
  show ?case
  proof (cases pre)
    case Nil
    then show ?thesis by (simp add: blocks_of_lines.simps(1))
  next
    case (Cons raw rest)
    show ?thesis
    proof (cases "is_fence raw")
      case False
      then have "even (length (filter is_fence rest))" using "1.prems" Cons by simp
      then have ih: "blocks_of_lines (rest @ X) = blocks_of_lines rest @ blocks_of_lines X"
        using "1.IH" Cons by simp
      show ?thesis
      proof (cases "strip raw = []")
        case True
        then show ?thesis using ih by (simp add: Cons bol_blank)
      next
        case ne: False
        from bol_plain[OF False ne] obtain b where
          "\<forall>rest. blocks_of_lines (raw # rest) = b # blocks_of_lines rest" by blast
        then have "blocks_of_lines (raw # rest @ X) = b # blocks_of_lines (rest @ X)"
          "blocks_of_lines (raw # rest) = b # blocks_of_lines rest" by simp_all
        then show ?thesis using ih by (simp add: Cons)
      qed
    next
      case True
      then have "odd (length (filter is_fence rest))" using "1.prems" Cons by simp
      from odd_fences_split[OF this] obtain closing after where
        d: "dropWhile (\<lambda>l. \<not> is_fence l) rest = closing # after" and c: "is_fence closing"
        and e: "even (length (filter is_fence after))" and l: "length after < length rest"
        by blast
      have ex: "\<exists>l\<in>set rest. \<not> \<not> is_fence l"
        using d by (metis dropWhile_eq_Nil_conv list.distinct(1))
      have t: "takeWhile (\<lambda>l. \<not> is_fence l) (rest @ X) = takeWhile (\<lambda>l. \<not> is_fence l) rest"
        using ex by (auto simp: takeWhile_append1)
      have dd: "dropWhile (\<lambda>l. \<not> is_fence l) (rest @ X) = closing # after @ X"
        using ex d by (auto simp: dropWhile_append1)
      have ih: "blocks_of_lines (after @ X) = blocks_of_lines after @ blocks_of_lines X"
        using "1.IH" Cons l e by simp
      have "blocks_of_lines (raw # rest @ X) =
          create_code_block (join [newline] (takeWhile (\<lambda>l. \<not> is_fence l) rest)) (strip (drop 3 (strip raw)))
          # blocks_of_lines (after @ X)"
        using bol_fence[OF True, of "rest @ X"] by (simp add: t dd)
      moreover have "blocks_of_lines (raw # rest) =
          create_code_block (join [newline] (takeWhile (\<lambda>l. \<not> is_fence l) rest)) (strip (drop 3 (strip raw)))
          # blocks_of_lines after"
        using bol_fence[OF True, of rest] by (simp add: d)
      ultimately show ?thesis using ih by (simp add: Cons)
    qed
  qed
qed

lemma bol_lines:
  assumes "set ls \<subseteq> set (split newline body)"
  shows "markdown_to_blocks (join [newline] ls) = blocks_of_lines ls"
proof -
  have "\<forall>l\<in>set ls. newline \<notin> set l"
  proof
    fix l assume "l \<in> set ls"
    then have "l \<in> set (split newline body)" using assms by auto
    then show "newline \<notin> set l" by (rule split_lines_free)
  qed
  then show ?thesis unfolding markdown_to_blocks_def by (rule bol_split_join)
qed

text \<open>The document of the integration test, its lines and its blocks.\<close>

lemma test_document_lines: "split newline test_document = test_lines"
  unfolding test_document_def test_lines_def by simp

lemma test_document_blocks:
  "markdown_to_blocks test_document =
     [create_heading_block ''Test Heading'' 1,
      create_paragraph_block ''This is a paragraph with **bold** and *italic* text.'',
      create_heading_block ''Secondary Heading'' 2,
      create_bullet_list_item ''List item 1'',
      create_bullet_list_item ''List item 2'',
      create_quote_block ''This is a quote'',
      create_code_block (join [newline] [''def hello_world():'', ''    print(\"Hello, world!\")'']) ''python'',
      create_numbered_list_item ''Numbered item 1'',
      create_numbered_list_item ''Numbered item 2'']"
  unfolding test_document_def test_lines_def by code_simp

text \<open>
  Claim C4, amended. Take any body and any line of it that has an even number of fence
  lines before it, so that it lies outside every fenced region. When the line is \<open>n\<close>
  hash characters, a space and a non-blank text, the blocks of the body are the blocks of
  the lines before it, then one block for the line, then the blocks of the lines after
  it; the block for the line is a heading of level \<open>n\<close> holding the stripped text when
  \<open>n\<close> is 1, 2 or 3, and a paragraph holding the whole stripped line when \<open>n\<close> is 4
  or more. The helper \<open>_create_heading_block\<close> maps every level above 3 to level 3.
\<close>

theorem heading_levels:
  assumes "split newline body = pre @ (replicate n (CHR ''#'') @ '' '' @ text) # rest"
    and "even (length (filter is_fence pre))"
    and "1 \<le> n" "strip text \<noteq> []"
  shows "markdown_to_blocks body =
           markdown_to_blocks (join [newline] pre)
           @ (if n \<le> 3 then create_heading_block (strip text) (int n)
              else create_paragraph_block (strip (replicate n (CHR ''#'') @ '' '' @ text)))
           # markdown_to_blocks (join [newline] rest)
         \<and> (\<forall>level > 3. create_heading_block text level = create_heading_block text 3)"
proof -
  define line where "line = replicate n (CHR ''#'') @ '' '' @ text"
  obtain a b where t: "text = a @ strip text @ b" and a: "\<forall>c\<in>set a. isspace c"
    and b: "\<forall>c\<in>set b. isspace c"
    using strip_decomp[of "text"] by blast
  define m where "m = replicate n (CHR ''#'') @ CHR '' '' # a @ strip text"
  have ct: "clean (strip text)" using assms(4) by (rule strip_clean)
  have cm: "clean m" using assms(3) ct by (cases n) (simp_all add: m_def clean_def not_space_chars)
  have "line = [] @ m @ b" unfolding line_def m_def using t by simp
  then have "strip line = strip ([] @ m @ b)" by simp
  also have "\<dots> = m" by (rule strip_sandwich[OF cm _ b]) simp
  finally have sl: "strip line = m" .
  have mne: "m \<noteq> []" using cm by (simp add: clean_def)
  have hdm: "hd m = CHR ''#''" using assms(3) by (cases n) (simp_all add: m_def)
  have tw: "takeWhile (\<lambda>c. c = CHR ''#'') m = replicate n (CHR ''#'')"
    unfolding m_def by (rule takeWhile_hashes) simp
  have here: "blocks_of_lines (line # rest) =
           (if n \<le> 3 then create_heading_block (strip text) (int n)
            else create_paragraph_block (strip line)) # blocks_of_lines rest"
  proof (cases "n \<le> 3")
    case True
    have "takeWhile isspace (CHR '' '' # a @ strip text) = CHR '' '' # a"
      using a ct by (simp add: not_space_chars clean_def takeWhile_append2 takeWhile_eq_Nil_iff)
    moreover have "dropWhile isspace (CHR '' '' # a @ strip text) = strip text"
      using a ct by (simp add: not_space_chars clean_def dropWhile_append2 dropWhile_id_hd)
    ultimately have "spaced_text (CHR '' '' # a @ strip text) = Some (strip text)"
      using assms(4) by (simp add: spaced_text_def Let_def)
    then have "heading_match m = Some (replicate n (CHR ''#''), strip text)"
      using True assms(3) by (simp add: heading_match_def tw Let_def) (simp add: m_def)
    then have "heading_match (strip line) = Some (replicate n (CHR ''#''), strip text)"
      by (simp add: sl)
    with bol_heading[of line "replicate n (CHR ''#'')" "strip text" rest] mne sl True
    show ?thesis by simp
  next
    case False
    then have "heading_match m = None" by (simp add: heading_match_def tw Let_def)
    moreover have "\<not> startswith ''```'' m" "\<not> startswith ''- '' m" "\<not> startswith ''* '' m"
      "\<not> startswith ''> '' m"
      using mne hdm by (cases m; simp add: startswith_def)+
    moreover have "numbered_match m = None"
      using mne hdm by (intro numbered_match_other) (simp_all add: isdecimal_def ord_def)
    ultimately have "blocks_of_lines (line # rest) = create_paragraph_block (strip line) # blocks_of_lines rest"
      using mne by (intro bol_paragraph) (simp_all add: sl)
    with False show ?thesis by simp
  qed
  have s: "split newline body = pre @ line # rest" using assms(1) by (simp add: line_def)
  have "markdown_to_blocks body = blocks_of_lines pre @ blocks_of_lines (line # rest)"
    unfolding markdown_to_blocks_def s using assms(2) by (rule bol_append)
  moreover have "markdown_to_blocks (join [newline] pre) = blocks_of_lines pre"
    by (rule bol_lines[of _ body]) (auto simp: s)
  moreover have "markdown_to_blocks (join [newline] rest) = blocks_of_lines rest"
    by (rule bol_lines[of _ body]) (auto simp: s)
  ultimately have "markdown_to_blocks body =
           markdown_to_blocks (join [newline] pre)
           @ (if n \<le> 3 then create_heading_block (strip text) (int n)
              else create_paragraph_block (strip line))
           # markdown_to_blocks (join [newline] rest)"
    using here by simp
  moreover have "\<forall>level > 3. create_heading_block text level = create_heading_block text 3"
    by (simp add: create_heading_block_def)
  ultimately show ?thesis by (simp add: line_def)
qed

text \<open>
  Claim C4, amended, at the second heading of the integration test's document, which
  follows a heading, a paragraph and two blank lines.
\<close>

theorem heading_levels_witness:
  "split newline test_document = take 4 test_lines @ ''## Secondary Heading'' # drop 5 test_lines \<and>
   even (length (filter is_fence (take 4 test_lines))) \<and>
   strip ''Secondary Heading'' \<noteq> [] \<and>
   markdown_to_blocks test_document =
     markdown_to_blocks (join [newline] (take 4 test_lines))
     @ create_heading_block ''Secondary Heading'' 2
     # markdown_to_blocks (join [newline] (drop 5 test_lines))"
proof -
  have s: "split newline test_document
             = take 4 test_lines @ (replicate 2 (CHR ''#'') @ '' '' @ ''Secondary Heading'') # drop 5 test_lines"
    unfolding test_document_lines by (simp add: test_lines_def numeral_2_eq_2)
  have e: "even (length (filter is_fence (take 4 test_lines)))"
    by (simp add: test_lines_def is_fence_def strip_def isspace_def ord_def startswith_def)
  have t: "strip ''Secondary Heading'' = ''Secondary Heading''"
    by (simp add: strip_def isspace_def ord_def)
  have n: "strip ''Secondary Heading'' \<noteq> []" by (simp add: t)
  from heading_levels[OF s e _ n]
  have "markdown_to_blocks test_document =
     markdown_to_blocks (join [newline] (take 4 test_lines))
     @ create_heading_block ''Secondary Heading'' 2
     # markdown_to_blocks (join [newline] (drop 5 test_lines))"
    by (simp add: t)
  with s e n show ?thesis by (simp add: numeral_2_eq_2)
qed

text \<open>
  Claim C4 as stated fails at a line of five hash characters: the block is a paragraph
  holding the line, not a heading of level 3.
\<close>

theorem heading_five_hashes_counterexample:
  "markdown_to_blocks ''##### Title'' = [create_paragraph_block ''##### Title''] \<and>
   markdown_to_blocks ''##### Title'' \<noteq> [create_heading_block ''Title'' 3]"
  by (simp add: markdown_to_blocks_def blocks_of_lines.simps strip_def isspace_def ord_def
      heading_match_def startswith_def numbered_match_def isdecimal_def block_defs str_int_def
      Let_def)

text \<open>
  A line of that shape inside a fenced region is part of the code, not a heading: the
  position in the amended claim is needed.
\<close>

lemma heading_shape_inside_fence:
  "markdown_to_blocks (join [newline] [''```'', ''# Title'', ''```''])
     = [create_code_block ''# Title'' []]"
  by code_simp

text \<open>
  Claim C5, amended. Take any body and any fence line of it (a line whose stripped form
  starts with three backquotes) that has an even number of fence lines before it, so that
  it opens a fenced region. It gives a code block whose language is the stripped rest of
  that line. The lines \<open>inner\<close> that follow, none of them a fence line, are taken
  verbatim, joined by newlines, up to the next fence line, which is consumed and left out
  of the code (\<open>tail\<close> starts with it); with no such line the code runs to the end of
  the input (\<open>tail\<close> is empty). The blocks of the body are the blocks of the lines
  before the opening line, then the code block, then the blocks of the lines after the
  closing line.
\<close>

theorem fenced_code_block:
  assumes "split newline body = pre @ opening # inner @ tail"
    and "even (length (filter is_fence pre))"
    and "is_fence opening" "\<forall>l \<in> set inner. \<not> is_fence l"
    and "tail = [] \<or> is_fence (hd tail)"
  shows "markdown_to_blocks body =
           markdown_to_blocks (join [newline] pre)
           @ create_code_block (join [newline] inner) (strip (drop 3 (strip opening)))
           # markdown_to_blocks (join [newline] (tl tail))"
proof -
  have dn: "dropWhile (\<lambda>l. \<not> is_fence l) inner = []"
    using assms(4) by (simp add: dropWhile_eq_Nil_conv)
  have tw: "takeWhile (\<lambda>l. \<not> is_fence l) (inner @ tail) = inner"
    using assms(4,5) by (cases tail) simp_all
  have dw: "drop 1 (dropWhile (\<lambda>l. \<not> is_fence l) (inner @ tail)) = tl tail"
    using assms(4,5) by (cases tail) (simp_all add: dn)
  have here: "blocks_of_lines (opening # inner @ tail)
        = create_code_block (join [newline] inner) (strip (drop 3 (strip opening)))
          # blocks_of_lines (tl tail)"
    using bol_fence[OF assms(3), of "inner @ tail"] by (simp only: tw dw)
  have "markdown_to_blocks body = blocks_of_lines pre @ blocks_of_lines (opening # inner @ tail)"
    unfolding markdown_to_blocks_def assms(1) using assms(2) by (rule bol_append)
  moreover have "markdown_to_blocks (join [newline] pre) = blocks_of_lines pre"
    by (rule bol_lines[of _ body]) (auto simp: assms(1))
  moreover have "set (tl tail) \<subseteq> set tail" by (cases tail) auto
  then have "markdown_to_blocks (join [newline] (tl tail)) = blocks_of_lines (tl tail)"
    by (intro bol_lines[of _ body]) (auto simp: assms(1))
  ultimately show ?thesis using here by simp
qed

text \<open>
  Claim C5, amended, at the fenced Python snippet of the integration test's document,
  which follows two headings, a paragraph, two list items and a quote.
\<close>

theorem fenced_code_block_witness:
  "split newline test_document
     = take 11 test_lines @ ''```python''
       # [''def hello_world():'', ''    print(\"Hello, world!\")''] @ drop 14 test_lines \<and>
   even (length (filter is_fence (take 11 test_lines))) \<and>
   is_fence ''```python'' \<and>
   list_all (\<lambda>l. \<not> is_fence l) [''def hello_world():'', ''    print(\"Hello, world!\")''] \<and>
   is_fence (hd (drop 14 test_lines)) \<and>
   markdown_to_blocks test_document =
     markdown_to_blocks (join [newline] (take 11 test_lines))
     @ create_code_block (join [newline] [''def hello_world():'', ''    print(\"Hello, world!\")'']) ''python''
     # markdown_to_blocks (join [newline] (drop 15 test_lines))"
proof -
  have s: "split newline test_document
     = take 11 test_lines @ ''```python''
       # [''def hello_world():'', ''    print(\"Hello, world!\")''] @ drop 14 test_lines"
    unfolding test_document_lines by (simp add: test_lines_def)
  have e: "even (length (filter is_fence (take 11 test_lines)))"
    by (simp add: test_lines_def is_fence_def strip_def isspace_def ord_def startswith_def)
  have o: "is_fence ''```python''"
    by (simp add: is_fence_def strip_def isspace_def ord_def startswith_def)
  have i: "\<forall>l \<in> set [''def hello_world():'', ''    print(\"Hello, world!\")'']. \<not> is_fence l"
    by (simp add: is_fence_def strip_def isspace_def ord_def startswith_def)
  have c: "is_fence (hd (drop 14 test_lines))"
    by (simp add: test_lines_def is_fence_def strip_def isspace_def ord_def startswith_def)
  then have c': "drop 14 test_lines = [] \<or> is_fence (hd (drop 14 test_lines))" by simp
  have l: "strip (drop 3 (strip ''```python'')) = ''python''"
    by (simp add: strip_def isspace_def ord_def)
  have d: "tl (drop 14 test_lines) = drop 15 test_lines" by (simp add: test_lines_def)
  from fenced_code_block[OF s e o i c']
  have "markdown_to_blocks test_document =
     markdown_to_blocks (join [newline] (take 11 test_lines))
     @ create_code_block (join [newline] [''def hello_world():'', ''    print(\"Hello, world!\")'']) ''python''
     # markdown_to_blocks (join [newline] (drop 15 test_lines))"
    by (simp only: l d)
  with s e o i c show ?thesis by (simp add: list_all_iff)
qed

text \<open>
  Claim C5 as stated fails where a line inside the fence starts with three backquotes
  without being exactly three backquotes: that line closes the block, so the code is
  \<open>a\<close> alone and the rest is parsed as further blocks.
\<close>

theorem fence_close_counterexample:
  "markdown_to_blocks (join [newline] [''```'', ''a'', ''```b'', ''c'', ''```''])
     = [create_code_block ''a'' '''', create_paragraph_block ''c'', create_code_block '''' ''''] \<and>
   markdown_to_blocks (join [newline] [''```'', ''a'', ''```b'', ''c'', ''```''])
     \<noteq> [create_code_block (join [newline] [''a'', ''```b'', ''c'']) '''']"
  by (simp add: markdown_to_blocks_def blocks_of_lines.simps strip_def isspace_def ord_def
      heading_match_def startswith_def numbered_match_def isdecimal_def is_fence_def)

lemma region_inside:
  "region_blocks is_fence True rest
     = region_blocks is_fence False (drop 1 (dropWhile (\<lambda>l. \<not> is_fence l) rest))"
  by (induction rest) simp_all

lemma length_blocks_of_lines: "length (blocks_of_lines ls) = region_blocks is_fence False ls"
proof (induction ls rule: length_induct)
  case (1 ls)
  show ?case
  proof (cases ls)
    case Nil
    then show ?thesis by (simp add: blocks_of_lines.simps(1))
  next
    case (Cons raw rest)
    show ?thesis
    proof (cases "is_fence raw")
      case True
      define after where "after = drop 1 (dropWhile (\<lambda>l. \<not> is_fence l) rest)"
      have "length after \<le> length rest"
        unfolding after_def using length_dropWhile_le[of "\<lambda>l. \<not> is_fence l" rest] by simp
      then have "length (blocks_of_lines after) = region_blocks is_fence False after"
        using "1.IH" Cons by simp
      moreover have "strip raw \<noteq> []" using True not_fence_strip_Nil by blast
      ultimately show ?thesis
        using True by (simp add: Cons bol_fence region_inside after_def)
    next
      case False
      have ih: "length (blocks_of_lines rest) = region_blocks is_fence False rest"
        using "1.IH" Cons by simp
      show ?thesis
      proof (cases "strip raw = []")
        case True
        then show ?thesis using ih by (simp add: Cons bol_blank)
      next
        case ne: False
        from bol_plain[OF False ne] obtain b where
          "\<forall>rest. blocks_of_lines (raw # rest) = b # blocks_of_lines rest" by blast
        then have "blocks_of_lines (raw # rest) = b # blocks_of_lines rest" by simp
        then show ?thesis using ih False ne by (simp add: Cons)
      qed
    qed
  qed
qed

lemma region_no_fence:
  "\<forall>l\<in>set ls. \<not> is_fence l \<Longrightarrow>
   region_blocks closes False ls = length (filter (\<lambda>l. strip l \<noteq> []) ls)"
  by (induction ls) simp_all

text \<open>
  Claim C9, amended. \<open>markdown_to_blocks\<close> is a total function: no statement of the
  source can raise, so the embedding returns a plain list for every body. It produces one
  block per non-blank line outside the fenced regions and one block per fenced region,
  where a region runs from a fence line to the next fence line (or to the end of the
  input); for a body with no fence line the number of blocks is the number of non-blank
  lines.
\<close>

theorem one_block_per_line:
  "length (markdown_to_blocks b) = region_blocks is_fence False (split newline b) \<and>
   ((\<forall>l \<in> set (split newline b). \<not> is_fence l) \<longrightarrow>
      length (markdown_to_blocks b) = length (filter (\<lambda>l. strip l \<noteq> []) (split newline b)))"
  by (simp add: markdown_to_blocks_def length_blocks_of_lines region_no_fence)

text \<open>Claim C9, amended, at a body of three non-blank lines and one blank line, with no fence.\<close>

theorem one_block_per_line_witness:
  "list_all (\<lambda>l. \<not> is_fence l) (split newline (join [newline] [''# T'', [], ''para'', ''- item''])) \<and>
   length (markdown_to_blocks (join [newline] [''# T'', [], ''para'', ''- item''])) = 3 \<and>
   length (filter (\<lambda>l. strip l \<noteq> [])
     (split newline (join [newline] [''# T'', [], ''para'', ''- item'']))) = 3"
proof -
  have s: "split newline (join [newline] [''# T'', [], ''para'', ''- item''])
           = [''# T'', [], ''para'', ''- item'']"
    by simp
  have f: "\<forall>l \<in> set (split newline (join [newline] [''# T'', [], ''para'', ''- item''])). \<not> is_fence l"
    unfolding s by (simp add: is_fence_def strip_def isspace_def ord_def startswith_def)
  have n: "length (filter (\<lambda>l. strip l \<noteq> [])
     (split newline (join [newline] [''# T'', [], ''para'', ''- item'']))) = 3"
    unfolding s by (simp add: strip_def isspace_def ord_def)
  from one_block_per_line[of "join [newline] [''# T'', [], ''para'', ''- item'']"] f n
  have "length (markdown_to_blocks (join [newline] [''# T'', [], ''para'', ''- item''])) = 3"
    by simp
  with f n show ?thesis by (simp add: list_all_iff)
qed

text \<open>
  Claim C9 as stated fails where a line inside a fenced region starts with three
  backquotes without being exactly three backquotes. With the regions of the
  specification, which close only at a line that is exactly three backquotes, the five
  lines below are one region and the claim gives one block; \<open>markdown_to_blocks\<close>
  returns three.
\<close>

theorem region_count_counterexample:
  "region_blocks closes_exactly False
     (split newline (join [newline] [''```'', ''a'', ''```b'', ''c'', ''```''])) = 1 \<and>
   length (markdown_to_blocks (join [newline] [''```'', ''a'', ''```b'', ''c'', ''```''])) = 3"
  by code_simp

lemma wf_lines:
  "even (length (filter is_fence pre)) \<Longrightarrow> b \<in> set (blocks_of_lines suf) \<Longrightarrow>
   \<exists>parts pre' raw rest. block_parts b = Some parts \<and> fst parts \<in> set block_tags \<and>
      pre @ suf = pre' @ raw # rest \<and> even (length (filter is_fence pre')) \<and>
      carries_line raw rest parts"
proof (induction suf arbitrary: pre rule: length_induct)
  case (1 suf)
  show ?case
  proof (cases suf)
    case Nil
    with "1.prems"(2) show ?thesis by (simp add: blocks_of_lines.simps(1))
  next
    case (Cons raw rest)
    show ?thesis
    proof (cases "is_fence raw")
      case False
      have e: "even (length (filter is_fence (pre @ [raw])))" using "1.prems"(1) False by simp
      have lr: "length rest < length suf" by (simp add: Cons)
      have ih: "b \<in> set (blocks_of_lines rest) \<Longrightarrow> ?thesis"
      proof -
        assume mem: "b \<in> set (blocks_of_lines rest)"
        from "1.IH"[rule_format, OF lr e mem] have
          "\<exists>parts pre' raw' rest'. block_parts b = Some parts \<and> fst parts \<in> set block_tags \<and>
             (pre @ [raw]) @ rest = pre' @ raw' # rest' \<and> even (length (filter is_fence pre')) \<and>
             carries_line raw' rest' parts" .
        then show ?thesis by (simp add: Cons)
      qed
      show ?thesis
      proof (cases "strip raw = []")
        case True
        then have "b \<in> set (blocks_of_lines rest)" using "1.prems"(2) by (simp add: Cons bol_blank)
        then show ?thesis by (rule ih)
      next
        case ne: False
        from bol_plain[OF False ne] obtain b0 parts where
          b0: "\<forall>rest. blocks_of_lines (raw # rest) = b0 # blocks_of_lines rest"
          and p: "block_parts b0 = Some parts" "fst parts \<in> set block_tags"
          and c: "\<forall>rest. carries_line raw rest parts"
          by blast
        from b0 have "blocks_of_lines (raw # rest) = b0 # blocks_of_lines rest" by simp
        with "1.prems"(2) Cons consider "b = b0" | "b \<in> set (blocks_of_lines rest)" by auto
        then show ?thesis
        proof cases
          case 1
          have "block_parts b = Some parts \<and> fst parts \<in> set block_tags \<and>
                pre @ suf = pre @ raw # rest \<and> even (length (filter is_fence pre)) \<and>
                carries_line raw rest parts"
            using 1 p c "1.prems"(1) Cons by simp
          then show ?thesis by blast
        next
          case 2
          then show ?thesis by (rule ih)
        qed
      qed
    next
      case True
      define after where "after = drop 1 (dropWhile (\<lambda>l. \<not> is_fence l) rest)"
      define cb where "cb = create_code_block (join [newline] (takeWhile (\<lambda>l. \<not> is_fence l) rest))
                               (strip (drop 3 (strip raw)))"
      have bl: "blocks_of_lines (raw # rest) = cb # blocks_of_lines after"
        unfolding cb_def after_def using True by (rule bol_fence)
      with "1.prems"(2) Cons consider "b = cb" | "b \<in> set (blocks_of_lines after)" by auto
      then show ?thesis
      proof cases
        case 1
        have "block_parts b = Some (''code'', join [newline] (takeWhile (\<lambda>l. \<not> is_fence l) rest),
                                    Some (strip (drop 3 (strip raw))))"
          unfolding 1 cb_def by (rule block_parts_simps)
        moreover have "carries_line raw rest (''code'', join [newline] (takeWhile (\<lambda>l. \<not> is_fence l) rest),
                                    Some (strip (drop 3 (strip raw))))"
          using True by (simp add: carries_line_def)
        ultimately have "block_parts b = Some (''code'', join [newline] (takeWhile (\<lambda>l. \<not> is_fence l) rest),
                                    Some (strip (drop 3 (strip raw)))) \<and>
            fst (''code'', join [newline] (takeWhile (\<lambda>l. \<not> is_fence l) rest),
                                    Some (strip (drop 3 (strip raw)))) \<in> set block_tags \<and>
            pre @ suf = pre @ raw # rest \<and> even (length (filter is_fence pre)) \<and>
            carries_line raw rest (''code'', join [newline] (takeWhile (\<lambda>l. \<not> is_fence l) rest),
                                    Some (strip (drop 3 (strip raw))))"
          using "1.prems"(1) Cons by (simp add: block_tags_def)
        then show ?thesis by blast
      next
        case 2
        then have "after \<noteq> []" by (auto simp: blocks_of_lines.simps(1))
        then have dne: "dropWhile (\<lambda>l. \<not> is_fence l) rest \<noteq> []"
          unfolding after_def by (cases "dropWhile (\<lambda>l. \<not> is_fence l) rest") simp_all
        then obtain closing where d: "dropWhile (\<lambda>l. \<not> is_fence l) rest = closing # after"
          unfolding after_def by (cases "dropWhile (\<lambda>l. \<not> is_fence l) rest") auto
        have c: "is_fence closing" using hd_dropWhile[OF dne] d by simp
        define body where "body = takeWhile (\<lambda>l. \<not> is_fence l) rest"
        have r: "rest = body @ closing # after"
          using takeWhile_dropWhile_id[of "\<lambda>l. \<not> is_fence l" rest] d by (simp add: body_def)
        have fb: "filter is_fence body = []"
          unfolding body_def by (auto simp: filter_empty_conv dest: set_takeWhileD)
        define pre2 where "pre2 = pre @ raw # body @ [closing]"
        have e2: "even (length (filter is_fence pre2))"
          using "1.prems"(1) True c fb by (simp add: pre2_def)
        have l: "length after < length suf" using Cons r by simp
        have s2: "pre2 @ after = pre @ suf" by (simp add: pre2_def Cons r)
        from "1.IH"[rule_format, OF l e2 2] have
          "\<exists>parts pre' raw' rest'. block_parts b = Some parts \<and> fst parts \<in> set block_tags \<and>
             pre2 @ after = pre' @ raw' # rest' \<and> even (length (filter is_fence pre')) \<and>
             carries_line raw' rest' parts" .
        then show ?thesis by (simp only: s2)
      qed
    qed
  qed
qed

text \<open>
  Claim C10. Every block \<open>markdown_to_blocks\<close> returns is a well-formed remote block
  object: a dict with exactly the keys \<open>type\<close> and the tag that \<open>type\<close> names, the
  tag being one of the eight block tags; the payload under the tag holds \<open>rich_text\<close>,
  a one-element list with one item of type \<open>text\<close>, and a \<open>language\<close> string exactly
  when the tag is \<open>code\<close>; and \<open>text.content\<close> is the text parsed from a line of the
  body that lies outside every fenced region or opens one: the group of the pattern for a
  heading or a numbered item, the stripped line after its marker for a bullet item or a
  quote, the stripped line for a paragraph, and the lines of the fenced region for code.
\<close>

theorem blocks_well_formed:
  "\<forall>b \<in> set (markdown_to_blocks markdown_content). well_formed_block markdown_content b"
proof
  fix b assume "b \<in> set (markdown_to_blocks markdown_content)"
  then have "b \<in> set (blocks_of_lines (split newline markdown_content))"
    by (simp add: markdown_to_blocks_def)
  from wf_lines[of "[]", OF _ this] obtain parts pre raw rest where
    p: "block_parts b = Some parts" "fst parts \<in> set block_tags"
    and s: "split newline markdown_content = pre @ raw # rest"
    and e: "even (length (filter is_fence pre))"
    and c: "carries_line raw rest parts"
    by auto
  define ls where "ls = split newline markdown_content"
  have i: "length pre \<in> set [0..<length ls]" by (simp add: ls_def s)
  have "take (length pre) ls = pre" "ls ! length pre = raw" "drop (Suc (length pre)) ls = rest"
    by (simp_all add: ls_def s)
  then have "even (length (filter is_fence (take (length pre) ls))) \<and>
             carries_line (ls ! length pre) (drop (Suc (length pre)) ls) parts"
    using e c by simp
  with i have "list_ex (\<lambda>i. even (length (filter is_fence (take i ls))) \<and>
                         carries_line (ls ! i) (drop (Suc i) ls) parts) [0..<length ls]"
    unfolding list_ex_iff by (rule bexI[rotated])
  then show "well_formed_block markdown_content b"
    using p by (simp add: well_formed_block_def ls_def Let_def)
qed

text \<open>Claim C10 at the code block of the integration test's document.\<close>

theorem blocks_well_formed_witness:
  "create_code_block (join [newline] [''def hello_world():'', ''    print(\"Hello, world!\")'']) ''python''
     \<in> set (markdown_to_blocks test_document) \<and>
   well_formed_block test_document
     (create_code_block (join [newline] [''def hello_world():'', ''    print(\"Hello, world!\")'']) ''python'')"
proof -
  have "create_code_block (join [newline] [''def hello_world():'', ''    print(\"Hello, world!\")'']) ''python''
     \<in> set (markdown_to_blocks test_document)"
    by (simp add: test_document_blocks)
  with blocks_well_formed[of test_document] show ?thesis by blast
qed

text \<open>A heading block with the right shape and an empty content is not well formed for a heading line.\<close>

lemma empty_content_not_well_formed:
  "\<not> well_formed_block ''# Title'' (PDict [(''type'', PStr ''heading_1''),
      (''heading_1'', PDict [(''rich_text'', rich_text [])])])"
  by code_simp

section \<open>Properties of the header store and the orchestrator\<close>

lemma map_of_dict_set: "map_of (dict_set kvs k v) k' = (if k' = k then Some v else map_of kvs k')"
  by (induction kvs) auto

lemma map_of_set_items_other:
  "k \<notin> fst ` set items \<Longrightarrow> map_of (set_items kvs items) k = map_of kvs k"
  by (induction kvs items rule: set_items.induct) (auto simp: map_of_dict_set)

lemma map_of_set_items_new:
  "distinct (map fst items) \<Longrightarrow> (k, v) \<in> set items \<Longrightarrow> map_of (set_items kvs items) k = Some v"
proof (induction kvs items rule: set_items.induct)
  case (1 kvs)
  then show ?case by simp
next
  case (2 kvs key x items)
  show ?case
  proof (cases "(k, v) = (key, x)")
    case True
    then have "k \<notin> fst ` set items" using "2.prems"(1) by auto
    then have "map_of (set_items (dict_set kvs key x) items) k = map_of (dict_set kvs key x) k"
      by (rule map_of_set_items_other)
    then show ?thesis using True by (simp add: map_of_dict_set)
  next
    case False
    then have "(k, v) \<in> set items" using "2.prems"(2) by auto
    then show ?thesis using "2.IH" "2.prems"(1) by simp
  qed
qed

lemma load_post_result:
  assumes "files w file_path = Some (Inr p)"
    and "\<forall>k \<in> set post_parameters. k \<notin> fst ` set (metadata p)"
  shows "load_post file_path w = (Inr p, w)"
proof -
  have "find (\<lambda>k. k \<in> set post_parameters) (map fst (metadata p)) = None"
    using assms(2) by (auto simp: find_None_iff)
  then show ?thesis using assms(1) by (simp add: load_post_def)
qed

lemma load_post_Inr:
  assumes "load_post file_path w = (Inr p, w')"
  shows "files w file_path = Some (Inr p)" "\<forall>k \<in> set post_parameters. k \<notin> fst ` set (metadata p)"
proof -
  from assms show f: "files w file_path = Some (Inr p)"
    by (auto simp: load_post_def split: option.splits sum.splits)
  with assms have "find (\<lambda>k. k \<in> set post_parameters) (map fst (metadata p)) = None"
    by (auto simp: load_post_def split: option.splits)
  then show "\<forall>k \<in> set post_parameters. k \<notin> fst ` set (metadata p)"
    by (auto simp: find_None_iff)
qed

lemma map_of_insort: "map_of (insort_key fst x ys) k = map_of (x # ys) k"
  by (induction ys) auto

lemma map_of_sort_key: "map_of (sort_key fst xs) k = map_of xs k"
  by (induction xs) (simp_all add: map_of_insort)

lemma map_of_yaml_items:
  "map_of (map (\<lambda>(k, v). (k, yaml_value v)) kvs) k = map_option yaml_value (map_of kvs k)"
  by (induction kvs) auto

lemma map_of_dumped:
  "map_of (metadata (dumped p)) k = map_option yaml_value (map_of (metadata p) k)"
  by (simp add: dumped_def map_of_sort_key map_of_yaml_items)

lemma keys_dumped: "fst ` set (metadata (dumped p)) = fst ` set (metadata p)"
  by (force simp: dumped_def)

lemma keys_dict_set: "fst ` set (dict_set kvs k v) = insert k (fst ` set kvs)"
proof (induction kvs)
  case Nil
  then show ?case by simp
next
  case (Cons kv kvs)
  obtain k' v' where kv: "kv = (k', v')" by (cases kv)
  show ?case
  proof (cases "k' = k")
    case True
    then show ?thesis by (simp add: kv)
  next
    case False
    then have "fst ` set (dict_set (kv # kvs) k v) = insert k' (fst ` set (dict_set kvs k v))"
      by (simp add: kv)
    also have "\<dots> = insert k' (insert k (fst ` set kvs))" by (simp only: Cons.IH)
    also have "\<dots> = insert k (fst ` set (kv # kvs))" by (auto simp: kv)
    finally show ?thesis .
  qed
qed

lemma keys_set_items: "fst ` set (set_items kvs items) = fst ` set kvs \<union> fst ` set items"
  by (induction kvs items rule: set_items.induct) (auto simp: keys_dict_set)

lemma update_frontmatter_result:
  assumes "load_post file_path w = (Inr p, w)" "write_error env file_path = None"
  shows "update_frontmatter env file_path updates w =
           (Inr (), w\<lparr>files := (files w)(file_path \<mapsto>
                         Inr (dumped (p\<lparr>metadata := set_items (metadata p) updates\<rparr>)))\<rparr>)"
  using assms load_post_Inr(1)[OF assms(1)]
  by (simp add: update_frontmatter_def io_bind_def path_exists_def write_post_def)

lemma parse_file_result:
  assumes "load_post file_path w = (Inr p, w)" "md_convert env (content p) = Inr html"
  shows "parse_file env file_path w = (Inr (metadata p, html, content p), w)"
  using assms load_post_Inr(1)[OF assms(1)]
  by (simp add: parse_file_def io_bind_def path_exists_def io_lift_def io_return_def)

lemma io_try_io_return: "\<exists>x w'. io_try m (\<lambda>e. io_return (g e)) w = (Inr x, w')"
proof (cases "m w")
  case (Pair r w1)
  then show ?thesis by (cases r) (simp_all add: io_try_def io_return_def)
qed

text \<open>
  Claim C8, amended. For an existing document that loads and can be written, and an
  update mapping none of whose keys is \<open>self\<close>, \<open>content\<close> or \<open>handler\<close>,
  \<open>update_frontmatter\<close> succeeds and rewrites the file so that it loads again, every
  key of the updates has its new value, every other header key has the value it had (a
  value is read back as YAML writes it, a mapping inside it listed in key order), the
  body is the old body stripped, and no other file is touched; \<open>parse_file\<close> then
  reports that header.
\<close>

theorem update_frontmatter_merges:
  assumes "load_post file_path w = (Inr p, w)" "write_error env file_path = None"
    and "distinct (map fst updates)"
    and "\<forall>k \<in> set post_parameters. k \<notin> fst ` set updates"
  shows "\<exists>w' p'. update_frontmatter env file_path updates w = (Inr (), w') \<and>
           load_post file_path w' = (Inr p', w') \<and>
           (\<forall>k v. (k, v) \<in> set updates \<longrightarrow> map_of (metadata p') k = Some (yaml_value v)) \<and>
           (\<forall>k. k \<notin> fst ` set updates \<longrightarrow>
              map_of (metadata p') k = map_option yaml_value (map_of (metadata p) k)) \<and>
           content p' = strip (content p) \<and>
           (\<forall>other. other \<noteq> file_path \<longrightarrow> files w' other = files w other) \<and>
           (\<forall>html. md_convert env (content p') = Inr html \<longrightarrow>
              fst (parse_file env file_path w') = Inr (metadata p', html, content p'))"
proof -
  define q where "q = p\<lparr>metadata := set_items (metadata p) updates\<rparr>"
  define p' where "p' = dumped q"
  define w' where "w' = w\<lparr>files := (files w)(file_path \<mapsto> Inr p')\<rparr>"
  have r: "update_frontmatter env file_path updates w = (Inr (), w')"
    unfolding w'_def p'_def q_def using assms(1,2) by (rule update_frontmatter_result)
  have f: "files w' file_path = Some (Inr p')" by (simp add: w'_def)
  have "fst ` set (metadata p') = fst ` set (metadata p) \<union> fst ` set updates"
    by (simp add: p'_def keys_dumped q_def keys_set_items)
  then have "\<forall>k \<in> set post_parameters. k \<notin> fst ` set (metadata p')"
    using load_post_Inr(2)[OF assms(1)] assms(4) by blast
  with f have l: "load_post file_path w' = (Inr p', w')" by (rule load_post_result)
  have n: "\<forall>k v. (k, v) \<in> set updates \<longrightarrow> map_of (metadata p') k = Some (yaml_value v)"
    using assms(3) by (simp add: p'_def map_of_dumped q_def map_of_set_items_new)
  have o: "\<forall>k. k \<notin> fst ` set updates \<longrightarrow>
             map_of (metadata p') k = map_option yaml_value (map_of (metadata p) k)"
    by (simp add: p'_def map_of_dumped q_def map_of_set_items_other)
  have c: "content p' = strip (content p)" by (simp add: p'_def dumped_def q_def)
  have fr: "\<forall>other. other \<noteq> file_path \<longrightarrow> files w' other = files w other" by (simp add: w'_def)
  have pf: "\<forall>html. md_convert env (content p') = Inr html \<longrightarrow>
              fst (parse_file env file_path w') = Inr (metadata p', html, content p')"
    using parse_file_result[OF l, of env] by simp
  show ?thesis
    apply (rule exI[of _ w'])
    apply (rule exI[of _ p'])
    apply (intro conjI)
          apply (rule r)
         apply (rule l)
        apply (rule n)
       apply (rule o)
      apply (rule c)
     apply (rule fr)
    apply (rule pf)
    done
qed

text \<open>
  Claim C8, amended, at the document of the integration test, rewritten with
  \<open>last_synced\<close> and \<open>status\<close>: title, page id and tags are as before.
\<close>

theorem update_frontmatter_merges_witness:
  "load_post ''doc.md'' test_world = (Inr test_post, test_world) \<and>
   (\<exists>w' p'. update_frontmatter quiet_env ''doc.md''
             [(''last_synced'', PStr ''2023-06-09T10:00:00''), (''status'', PStr ''synced'')] test_world
             = (Inr (), w') \<and>
     load_post ''doc.md'' w' = (Inr p', w') \<and>
     map_of (metadata p') ''last_synced'' = Some (PStr ''2023-06-09T10:00:00'') \<and>
     map_of (metadata p') ''status'' = Some (PStr ''synced'') \<and>
     map_of (metadata p') ''title'' = Some (PStr ''Test Document'') \<and>
     map_of (metadata p') ''notion_page_id'' = Some (PStr ''abc123'') \<and>
     map_of (metadata p') ''tags'' = Some (PList [PStr ''test'', PStr ''integration'']))"
proof -
  have h: "load_post ''doc.md'' test_world = (Inr test_post, test_world)"
    "write_error quiet_env ''doc.md'' = None"
    "distinct (map fst [(''last_synced'', PStr ''2023-06-09T10:00:00''), (''status'', PStr ''synced'')])"
    "\<forall>k \<in> set post_parameters.
       k \<notin> fst ` set [(''last_synced'', PStr ''2023-06-09T10:00:00''), (''status'', PStr ''synced'')]"
    by (simp_all add: load_post_def test_world_def test_post_def quiet_env_def post_parameters_def)
  from update_frontmatter_merges[OF h] obtain w' p' where
    r: "update_frontmatter quiet_env ''doc.md''
             [(''last_synced'', PStr ''2023-06-09T10:00:00''), (''status'', PStr ''synced'')] test_world
             = (Inr (), w')"
    and f: "load_post ''doc.md'' w' = (Inr p', w')"
    and n: "\<forall>k v. (k, v) \<in> set [(''last_synced'', PStr ''2023-06-09T10:00:00''), (''status'', PStr ''synced'')]
              \<longrightarrow> map_of (metadata p') k = Some (yaml_value v)"
    and o: "\<forall>k. k \<notin> fst ` set [(''last_synced'', PStr ''2023-06-09T10:00:00''), (''status'', PStr ''synced'')]
              \<longrightarrow> map_of (metadata p') k = map_option yaml_value (map_of (metadata test_post) k)"
    by (elim exE conjE)
  have n1: "map_of (metadata p') ''last_synced'' = Some (PStr ''2023-06-09T10:00:00'')"
    using n[rule_format, of "''last_synced''" "PStr ''2023-06-09T10:00:00''"] by simp
  have n2: "map_of (metadata p') ''status'' = Some (PStr ''synced'')"
    using n[rule_format, of "''status''" "PStr ''synced''"] by simp
  have o1: "map_of (metadata p') ''title'' = Some (PStr ''Test Document'')"
    using o[rule_format, of "''title''"] by (simp add: test_post_def)
  have o2: "map_of (metadata p') ''notion_page_id'' = Some (PStr ''abc123'')"
    using o[rule_format, of "''notion_page_id''"] by (simp add: test_post_def)
  have o3: "map_of (metadata p') ''tags'' = Some (PList [PStr ''test'', PStr ''integration''])"
    using o[rule_format, of "''tags''"] by (simp add: test_post_def)
  have "\<exists>w' p'. update_frontmatter quiet_env ''doc.md''
             [(''last_synced'', PStr ''2023-06-09T10:00:00''), (''status'', PStr ''synced'')] test_world
             = (Inr (), w') \<and>
     load_post ''doc.md'' w' = (Inr p', w') \<and>
     map_of (metadata p') ''last_synced'' = Some (PStr ''2023-06-09T10:00:00'') \<and>
     map_of (metadata p') ''status'' = Some (PStr ''synced'') \<and>
     map_of (metadata p') ''title'' = Some (PStr ''Test Document'') \<and>
     map_of (metadata p') ''notion_page_id'' = Some (PStr ''abc123'') \<and>
     map_of (metadata p') ''tags'' = Some (PList [PStr ''test'', PStr ''integration''])"
    apply (rule exI[of _ w'])
    apply (rule exI[of _ p'])
    apply (intro conjI)
          apply (rule r)
         apply (rule f)
        apply (rule n1)
       apply (rule n2)
      apply (rule o1)
     apply (rule o2)
    apply (rule o3)
    done
  with h(1) show ?thesis by (rule conjI)
qed

text \<open>
  Claim C8 as stated fails for an update mapping with the key \<open>content\<close>: the write
  succeeds, and afterwards the file no longer loads, so none of its header keys can be
  read back; \<open>parse_file\<close> raises the \<open>TypeError\<close> of \<open>Post.__init__\<close>.
\<close>

theorem update_frontmatter_counterexample:
  "fst (update_frontmatter quiet_env ''doc.md'' [(''content'', PStr ''x'')] test_world) = Inr () \<and>
   fst (parse_file quiet_env ''doc.md''
          (snd (update_frontmatter quiet_env ''doc.md'' [(''content'', PStr ''x'')] test_world)))
     = Inl (multiple_values ''content'')"
  by code_simp

text \<open>
  Claim C7. For every environment, world and argument, \<open>sync_file_to_notion\<close> and
  \<open>sync_notion_to_file\<close> return a pair of a success flag and a message and never
  raise; when the body of either raises an exception \<open>e\<close>, the flag is false and the
  message ends in \<open>str(e)\<close>.
\<close>

theorem entry_points_never_raise:
  "(\<exists>ok message w'. sync_file_to_notion env file_path w = (Inr (ok, message), w')) \<and>
   (\<exists>ok message w'. sync_notion_to_file env notion_page_id target w = (Inr (ok, message), w')) \<and>
   (\<forall>e w'. has_client env \<and> push_body env file_path w = (Inl e, w') \<longrightarrow>
      sync_file_to_notion env file_path w
        = (Inr (False, ''Error syncing file to Notion: '' @ exn_str e), w')) \<and>
   (\<forall>e w'. has_client env \<and> pull_body env notion_page_id target w = (Inl e, w') \<longrightarrow>
      sync_notion_to_file env notion_page_id target w
        = (Inr (False, ''Error syncing Notion page to file: '' @ exn_str e), w'))"
proof -
  have a: "\<exists>ok message w'. sync_file_to_notion env file_path w = (Inr (ok, message), w')"
  proof (cases "has_client env")
    case False
    then have "sync_file_to_notion env file_path w = (Inr (False, ''Notion API token not configured''), w)"
      by (simp add: sync_file_to_notion_def io_return_def)
    then show ?thesis by (intro exI)
  next
    case True
    have "\<exists>x w'. io_try (push_body env file_path)
             (\<lambda>e. io_return (False, ''Error syncing file to Notion: '' @ exn_str e)) w = (Inr x, w')"
      by (rule io_try_io_return)
    with True show ?thesis by (auto simp: sync_file_to_notion_def)
  qed
  have b: "\<exists>ok message w'. sync_notion_to_file env notion_page_id target w = (Inr (ok, message), w')"
  proof (cases "has_client env")
    case False
    then have "sync_notion_to_file env notion_page_id target w
                 = (Inr (False, ''Notion API token not configured''), w)"
      by (simp add: sync_notion_to_file_def io_return_def)
    then show ?thesis by (intro exI)
  next
    case True
    have "\<exists>x w'. io_try (pull_body env notion_page_id target)
             (\<lambda>e. io_return (False, ''Error syncing Notion page to file: '' @ exn_str e)) w = (Inr x, w')"
      by (rule io_try_io_return)
    with True show ?thesis by (auto simp: sync_notion_to_file_def)
  qed
  have c: "\<forall>e w'. has_client env \<and> push_body env file_path w = (Inl e, w') \<longrightarrow>
      sync_file_to_notion env file_path w
        = (Inr (False, ''Error syncing file to Notion: '' @ exn_str e), w')"
    by (simp add: sync_file_to_notion_def io_try_def io_return_def)
  have d: "\<forall>e w'. has_client env \<and> pull_body env notion_page_id target w = (Inl e, w') \<longrightarrow>
      sync_notion_to_file env notion_page_id target w
        = (Inr (False, ''Error syncing Notion page to file: '' @ exn_str e), w')"
    by (simp add: sync_notion_to_file_def io_try_def io_return_def)
  show ?thesis
    apply (intro conjI)
       apply (rule a)
      apply (rule b)
     apply (rule c)
    apply (rule d)
    done
qed

lemma keeps_basic:
  "keeps_calls (io_return x)" "keeps_calls (io_raise e)" "keeps_calls (io_lift r)"
  "keeps_calls (path_exists p)" "keeps_calls (load_post p)" "keeps_calls (write_post env p q)"
  "keeps_calls (read_clock env)" "keeps_calls (raise_if eo)"
  by (auto simp: keeps_calls_def io_return_def io_raise_def io_lift_def path_exists_def
      load_post_def write_post_def read_clock_def raise_if_def split: option.splits sum.splits)

lemma keeps_bind:
  assumes "keeps_calls m" "\<And>x. keeps_calls (f x)"
  shows "keeps_calls (io_bind m f)"
  unfolding keeps_calls_def
proof
  fix w
  obtain r w1 where m: "m w = (r, w1)" by (cases "m w")
  then have c: "calls w1 = calls w" using assms(1) by (auto simp: keeps_calls_def dest: spec[of _ w])
  show "calls (snd (io_bind m f w)) = calls w"
  proof (cases r)
    case (Inl e)
    then show ?thesis using m c by (simp add: io_bind_def)
  next
    case (Inr x)
    then have "io_bind m f w = f x w1" using m by (simp add: io_bind_def)
    then show ?thesis using assms(2)[of x] c by (simp add: keeps_calls_def)
  qed
qed

lemma keeps_if: "keeps_calls a \<Longrightarrow> keeps_calls b \<Longrightarrow> keeps_calls (if c then a else b)"
  by simp

lemma keeps_update_frontmatter: "keeps_calls (update_frontmatter env p upd)"
  unfolding update_frontmatter_def
  by (intro keeps_bind keeps_if keeps_basic)

lemma keeps_finish_push: "keeps_calls (finish_push env p msg)"
  unfolding finish_push_def
  by (intro keeps_bind keeps_basic keeps_update_frontmatter)

lemma appends_keeps: "keeps_calls m \<Longrightarrow> appends_calls m"
  by (simp add: keeps_calls_def appends_calls_def)

lemma appends_call: "appends_calls (io_call c r)"
  by (simp add: appends_calls_def io_call_def)

lemma appends_bind:
  assumes "appends_calls m" "\<And>x. appends_calls (f x)"
  shows "appends_calls (io_bind m f)"
  unfolding appends_calls_def
proof
  fix w
  obtain r w1 where m: "m w = (r, w1)" by (cases "m w")
  from assms(1) obtain r1 where c: "calls w1 = calls w @ r1"
    using m by (auto simp: appends_calls_def dest: spec[of _ w])
  show "\<exists>rest. calls (snd (io_bind m f w)) = calls w @ rest"
  proof (cases r)
    case (Inl e)
    then show ?thesis using m c by (simp add: io_bind_def)
  next
    case (Inr x)
    then have e: "io_bind m f w = f x w1" using m by (simp add: io_bind_def)
    from assms(2)[of x] obtain r2 where "calls (snd (f x w1)) = calls w1 @ r2"
      by (auto simp: appends_calls_def)
    then show ?thesis using e c by simp
  qed
qed

lemma io_bind_assoc: "io_bind (io_bind m f) g = io_bind m (\<lambda>x. io_bind (f x) g)"
  by (rule ext) (auto simp: io_bind_def split: prod.splits sum.splits)

lemma snd_io_try_return: "snd (io_try m (\<lambda>e. io_return (g e)) w) = snd (m w)"
  by (cases "m w") (auto simp: io_try_def io_return_def split: sum.splits)

lemma fst_io_try_return_Inr: "m w = (Inr x, w') \<Longrightarrow> io_try m h w = (Inr x, w')"
  by (simp add: io_try_def)

lemma check_page_exists_result:
  "check_page_exists env pid w =
     (Inr (truthy pid \<and> succeeds (get_page env pid)),
      if truthy pid then w\<lparr>calls := calls w @ [GetPage pid]\<rparr> else w)"
  by (cases "get_page env pid")
     (simp_all add: check_page_exists_def io_try_def io_bind_def io_call_def io_return_def
        succeeds_def)

lemma bind_call_appends:
  assumes "\<And>x. appends_calls (f x)"
  shows "\<exists>rest. calls (snd (io_bind (io_call c r) f w)) = calls w @ [c] @ rest"
proof (cases r)
  case (Inl e)
  then show ?thesis by (simp add: io_bind_def io_call_def)
next
  case (Inr x)
  from assms[of x] obtain rest where
    "calls (snd (f x (w\<lparr>calls := calls w @ [c]\<rparr>))) = calls (w\<lparr>calls := calls w @ [c]\<rparr>) @ rest"
    unfolding appends_calls_def by blast
  then show ?thesis using Inr by (simp add: io_bind_def io_call_def)
qed

lemma update_branch_calls:
  "calls (snd (io_bind (update_existing_page env pid title blocks) (finish_push env fp) w))
     = calls w @ [UpdatePageBlocks pid blocks]"
proof (cases "update_page_blocks env pid blocks")
  case None
  then have "io_bind (update_existing_page env pid title blocks) (finish_push env fp) w
        = finish_push env fp (''Updated Notion page: '' @ format_value (py_str env) title)
            (w\<lparr>calls := calls w @ [UpdatePageBlocks pid blocks]\<rparr>)"
    by (simp add: update_existing_page_def io_bind_def io_call_def io_return_def)
  then show ?thesis using keeps_finish_push[of env fp] by (simp add: keeps_calls_def)
next
  case (Some e)
  then show ?thesis
    by (simp add: update_existing_page_def io_bind_def io_call_def)
qed

lemma page_properties_result:
  "\<exists>properties. page_properties env parent title md w
     = (Inr properties, w\<lparr>calls := calls w @ [DatabasesRetrieve parent]\<rparr>)"
  by (cases "databases_retrieve env parent")
     (simp_all add: page_properties_def io_try_def io_bind_def io_call_def io_return_def Let_def)

lemma create_branch_unconfigured:
  assumes "configured_parent env = None"
  shows "create_new_page env fp title md blocks w = (Inr (Inl (False, ''Parent page ID not configured'')), w)"
  using assms
  by (auto simp: configured_parent_def create_new_page_def io_return_def split: option.splits if_splits)

lemma appends_after_create:
  "appends_calls
     (io_bind (io_lift (py_item page ''id'')) (\<lambda>notion_page_id.
      io_bind (io_call (UpdatePageBlocks notion_page_id blocks)
                 (case update_page_blocks env notion_page_id blocks of
                    Some e \<Rightarrow> Inl e | None \<Rightarrow> Inr ())) (\<lambda>_.
      io_bind (read_clock env) (\<lambda>now.
      io_bind (update_frontmatter env fp
                 [(''notion_page_id'', notion_page_id), (''last_synced'', PStr now)]) (\<lambda>_.
      io_return (Inr (''Created new Notion page: '' @ format_value (py_str env) title)
                 :: (bool \<times> string) + string))))))"
  by (intro appends_bind appends_call appends_keeps keeps_basic keeps_update_frontmatter)

lemma appends_push_tail:
  "appends_calls (case r of Inl early \<Rightarrow> io_return early | Inr message \<Rightarrow> finish_push env fp message)"
  by (cases r) (simp_all add: appends_keeps keeps_basic keeps_finish_push)

lemma create_branch_calls:
  assumes "configured_parent env = Some parent"
  shows "\<exists>properties rest.
     calls (snd (io_bind (create_new_page env fp title md blocks)
                   (\<lambda>r. case r of Inl early \<Rightarrow> io_return early
                              | Inr message \<Rightarrow> finish_push env fp message) w))
       = calls w @ [DatabasesRetrieve parent, CreatePage parent title properties] @ rest"
proof -
  let ?K = "\<lambda>r. case r of Inl early \<Rightarrow> io_return early | Inr message \<Rightarrow> finish_push env fp message"
  let ?G = "\<lambda>page. io_bind (io_lift (py_item page ''id'')) (\<lambda>notion_page_id.
      io_bind (io_call (UpdatePageBlocks notion_page_id blocks)
                 (case update_page_blocks env notion_page_id blocks of
                    Some e \<Rightarrow> Inl e | None \<Rightarrow> Inr ())) (\<lambda>_.
      io_bind (read_clock env) (\<lambda>now.
      io_bind (update_frontmatter env fp
                 [(''notion_page_id'', notion_page_id), (''last_synced'', PStr now)]) (\<lambda>_.
      io_return (Inr (''Created new Notion page: '' @ format_value (py_str env) title)
                 :: (bool \<times> string) + string)))))"
  from assms obtain p where p: "parent_page_id env = Some p" "p \<noteq> []" "parent = dashed_id p"
    by (auto simp: configured_parent_def split: option.splits if_splits)
  obtain properties where pp: "page_properties env parent title md w
     = (Inr properties, w\<lparr>calls := calls w @ [DatabasesRetrieve parent]\<rparr>)"
    using page_properties_result by blast
  define w1 where "w1 = w\<lparr>calls := calls w @ [DatabasesRetrieve parent]\<rparr>"
  have c: "create_new_page env fp title md blocks
        = io_bind (page_properties env parent title md) (\<lambda>properties.
            io_bind (io_call (CreatePage parent title properties)
                       (create_page env parent title properties)) ?G)"
    using p by (simp add: create_new_page_def Let_def)
  have "io_bind (create_new_page env fp title md blocks) ?K w
        = io_bind (io_call (CreatePage parent title properties)
                     (create_page env parent title properties))
            (\<lambda>page. io_bind (?G page) ?K) w1"
    unfolding c io_bind_assoc using pp by (simp add: io_bind_def w1_def)
  moreover have "\<exists>rest. calls (snd (io_bind (io_call (CreatePage parent title properties)
                     (create_page env parent title properties))
            (\<lambda>page. io_bind (?G page) ?K) w1))
        = calls w1 @ [CreatePage parent title properties] @ rest"
    by (rule bind_call_appends) (intro appends_bind appends_after_create appends_push_tail)
  ultimately show ?thesis by (auto simp: w1_def)
qed

text \<open>
  Claim C6. On a push of a document that loads, with a configured client, the page's
  blocks are replaced in place (the calls are the lookup of the stored id and
  \<open>update_page_blocks\<close> on it) exactly when the header holds a truthy page id and
  \<open>get_page\<close> of it succeeds. Otherwise, with no stored id or with a stored id whose
  lookup raises, the create branch runs: with no parent configured it returns the
  early failure, and with a parent it probes the parent and calls \<open>create_page\<close>.
\<close>

theorem push_update_or_create:
  assumes "has_client env" "load_post file_path w = (Inr p, w)" "md_convert env (content p) = Inr html"
  shows "let page_id = dict_get (metadata p) ''notion_page_id'';
             title = resolve_title (metadata p) (content p) file_path;
             blocks = markdown_to_blocks (content p);
             asked = (if truthy page_id then [GetPage page_id] else []);
             made = new_calls w (snd (sync_file_to_notion env file_path w))
         in if truthy page_id \<and> succeeds (get_page env page_id)
            then made = [GetPage page_id, UpdatePageBlocks page_id blocks]
            else (case configured_parent env of
                    None \<Rightarrow> made = asked \<and>
                      fst (sync_file_to_notion env file_path w)
                        = Inr (False, ''Parent page ID not configured'')
                  | Some parent \<Rightarrow>
                      (\<exists>properties rest.
                         made = asked @ [DatabasesRetrieve parent, CreatePage parent title properties] @ rest))"
proof -
  define page_id where "page_id = dict_get (metadata p) ''notion_page_id''"
  define title where "title = resolve_title (metadata p) (content p) file_path"
  define blocks where "blocks = markdown_to_blocks (content p)"
  define asked where "asked = (if truthy page_id then [GetPage page_id] else [])"
  define w1 where "w1 = (if truthy page_id then w\<lparr>calls := calls w @ [GetPage page_id]\<rparr> else w)"
  define K where "K = (\<lambda>r. case r of Inl early \<Rightarrow> io_return early
                              | Inr message \<Rightarrow> finish_push env file_path message)"
  have cw1: "calls w1 = calls w @ asked" by (simp add: w1_def asked_def)
  have pf: "parse_file env file_path w = (Inr (metadata p, html, content p), w)"
    using assms(2,3) by (rule parse_file_result)
  have body: "push_body env file_path w =
      (if truthy page_id \<and> succeeds (get_page env page_id)
       then io_bind (update_existing_page env page_id title blocks) (finish_push env file_path) w1
       else io_bind (create_new_page env file_path title (metadata p) blocks) K w1)"
  proof -
    have s1: "\<And>f. io_bind (parse_file env file_path) f w = f (metadata p, html, content p) w"
      using pf by (simp add: io_bind_def)
    have s2: "\<And>f. io_bind (check_page_exists env page_id) f w
                = f (truthy page_id \<and> succeeds (get_page env page_id)) w1"
      by (simp add: io_bind_def check_page_exists_result w1_def)
    show ?thesis
      unfolding push_body_def s1
      by (simp add: s2[unfolded page_id_def] Let_def page_id_def title_def blocks_def K_def)
  qed
  have sync: "sync_file_to_notion env file_path w
      = io_try (push_body env file_path)
          (\<lambda>e. io_return (False, ''Error syncing file to Notion: '' @ exn_str e)) w"
    using assms(1) by (simp add: sync_file_to_notion_def)
  have world: "snd (sync_file_to_notion env file_path w) = snd (push_body env file_path w)"
    unfolding sync by (rule snd_io_try_return)
  show ?thesis
  proof (cases "truthy page_id \<and> succeeds (get_page env page_id)")
    case True
    then have "asked = [GetPage page_id]" by (simp add: asked_def)
    then have "new_calls w (snd (sync_file_to_notion env file_path w))
        = [GetPage page_id, UpdatePageBlocks page_id blocks]"
      using True by (simp add: world body update_branch_calls cw1 new_calls_def)
    then show ?thesis
      unfolding Let_def page_id_def[symmetric] blocks_def[symmetric]
      by (subst if_P[OF True]) simp
  next
    case False
    have body': "push_body env file_path w
        = io_bind (create_new_page env file_path title (metadata p) blocks) K w1"
      unfolding body using False by (simp only: if_False)
    show ?thesis
    proof (cases "configured_parent env")
      case None
      have c: "create_new_page env file_path title (metadata p) blocks w1
            = (Inr (Inl (False, ''Parent page ID not configured'')), w1)"
        using None by (rule create_branch_unconfigured)
      have b: "push_body env file_path w = (Inr (False, ''Parent page ID not configured''), w1)"
        unfolding body' by (simp add: io_bind_def c K_def io_return_def)
      have "sync_file_to_notion env file_path w = (Inr (False, ''Parent page ID not configured''), w1)"
        unfolding sync using b by (rule fst_io_try_return_Inr)
      then have "new_calls w (snd (sync_file_to_notion env file_path w)) = asked \<and>
          fst (sync_file_to_notion env file_path w) = Inr (False, ''Parent page ID not configured'')"
        by (simp add: new_calls_def cw1)
      with None show ?thesis
        unfolding Let_def page_id_def[symmetric] asked_def[symmetric]
        by (subst if_not_P[OF False]) simp
    next
      case (Some parent)
      from create_branch_calls[OF Some, of file_path title "metadata p" blocks w1]
      obtain properties rest where
        "calls (snd (io_bind (create_new_page env file_path title (metadata p) blocks) K w1))
           = calls w1 @ [DatabasesRetrieve parent, CreatePage parent title properties] @ rest"
        unfolding K_def by blast
      then have "new_calls w (snd (sync_file_to_notion env file_path w))
           = asked @ [DatabasesRetrieve parent, CreatePage parent title properties] @ rest"
        by (simp add: world body' cw1 new_calls_def)
      then have "\<exists>properties rest. new_calls w (snd (sync_file_to_notion env file_path w))
           = asked @ [DatabasesRetrieve parent, CreatePage parent title properties] @ rest"
        by blast
      with Some show ?thesis
        unfolding Let_def page_id_def[symmetric] asked_def[symmetric] title_def[symmetric]
        by (subst if_not_P[OF False]) simp
    qed
  qed
qed

lemmas io_defs = io_bind_def io_try_def io_return_def io_raise_def io_lift_def io_call_def
  raise_if_def path_exists_def load_post_def write_post_def read_clock_def

lemma conflicts_returns: "\<exists>b w'. detect_conflicts env file_path page_id w = (Inr b, w')"
  unfolding detect_conflicts_def by (rule io_try_io_return)

lemma conflicts_never_synced:
  assumes "load_post file_path w = (Inr p, w)" "md_convert env (content p) = Inr html"
    and "\<not> truthy (dict_get (metadata p) ''last_synced'')"
  shows "detect_conflicts env file_path page_id w = (Inr False, w)"
proof -
  have "parse_file env file_path w = (Inr (metadata p, html, content p), w)"
    using assms(1,2) by (rule parse_file_result)
  then have "conflicts_body env file_path page_id w = (Inr False, w)"
    using assms(3) by (simp add: conflicts_body_def io_bind_def io_return_def)
  then show ?thesis by (simp add: detect_conflicts_def io_try_def)
qed

lemma conflicts_aware_remote:
  assumes "load_post file_path w = (Inr p, w)" "md_convert env (content p) = Inr html"
    and "truthy (dict_get (metadata p) ''last_synced'')"
    and "has_client env" "get_page env page_id = Inr page"
    and "py_get page ''last_edited_time'' PNone = Inr (PStr edited)"
    and "fromisoformat env (replace (CHR ''Z'') ''+00:00'' edited) = Inr (Aware t)"
  shows "fst (detect_conflicts env file_path page_id w) = Inr True"
proof -
  have pf: "parse_file env file_path w = (Inr (metadata p, html, content p), w)"
    using assms(1,2) by (rule parse_file_result)
  show ?thesis
  proof (cases "parse_iso env (dict_get (metadata p) ''last_synced'')")
    case (Inl e)
    then show ?thesis using pf assms(3)
      by (simp add: detect_conflicts_def conflicts_body_def io_defs)
  next
    case (Inr synced_at)
    show ?thesis
    proof (cases "getmtime env file_path")
      case (Inl e)
      then show ?thesis using pf assms(3-7) Inr
        by (simp add: detect_conflicts_def conflicts_body_def io_defs replace_z_def parse_iso_def)
    next
      case mt: (Inr m)
      show ?thesis
      proof (cases synced_at)
        case (Naive b)
        then show ?thesis using pf assms(3-7) Inr mt
          by (simp add: detect_conflicts_def conflicts_body_def io_defs replace_z_def parse_iso_def)
      next
        case (Aware b)
        then show ?thesis using pf assms(3-7) Inr mt
          by (simp add: detect_conflicts_def conflicts_body_def io_defs replace_z_def parse_iso_def)
      qed
    qed
  qed
qed

lemma conflicts_all_naive:
  assumes "load_post file_path w = (Inr p, w)" "md_convert env (content p) = Inr html"
    and "dict_get (metadata p) ''last_synced'' = PStr synced" "synced \<noteq> []"
    and "fromisoformat env synced = Inr (Naive synced_at)"
    and "has_client env" "get_page env page_id = Inr page"
    and "py_get page ''last_edited_time'' PNone = Inr (PStr edited)"
    and "fromisoformat env (replace (CHR ''Z'') ''+00:00'' edited) = Inr (Naive remote)"
    and "getmtime env file_path = Inr local"
  shows "fst (detect_conflicts env file_path page_id w) = Inr (remote > synced_at \<and> local > synced_at)"
proof -
  have pf: "parse_file env file_path w = (Inr (metadata p, html, content p), w)"
    using assms(1,2) by (rule parse_file_result)
  show ?thesis using pf assms(3-10)
    by (simp add: detect_conflicts_def conflicts_body_def io_defs replace_z_def parse_iso_def)
qed

text \<open>
  Claim C1 at its own example. With \<open>last_synced\<close> at T0, the remote page edited at
  T0 + 1 s and the file modified at T0 - 1 s, only one side has changed, yet
  \<open>detect_conflicts\<close> returns true, as it does with the file modified at T0 + 2 s:
  the remote time is aware, \<open>last_synced\<close> and the file time are naive, so the first
  comparison raises \<open>TypeError\<close> and the handler answers true.
\<close>

theorem conflict_check_one_sided:
  "fst (detect_conflicts (edited_env (t0 - 1000000)) ''doc.md'' (PStr ''page-1'') synced_world)
     = Inr True \<and>
   fst (detect_conflicts (edited_env (t0 + 2000000)) ''doc.md'' (PStr ''page-1'') synced_world)
     = Inr True"
proof -
  have "fst (detect_conflicts (edited_env mtime) ''doc.md'' (PStr ''page-1'') synced_world)
     = Inr True" for mtime
  proof (rule conflicts_aware_remote)
    show "load_post ''doc.md'' synced_world = (Inr synced_post, synced_world)"
      by (simp add: load_post_def synced_world_def synced_post_def post_parameters_def)
    show "md_convert (edited_env mtime) (content synced_post) = Inr (content synced_post)"
      by (simp add: edited_env_def quiet_env_def)
    show "truthy (dict_get (metadata synced_post) ''last_synced'')"
      by (simp add: synced_post_def dict_get_def)
    show "has_client (edited_env mtime)" by (simp add: edited_env_def quiet_env_def)
    show "get_page (edited_env mtime) (PStr ''page-1'')
            = Inr (PDict [(''id'', PStr ''page-1''),
                          (''last_edited_time'', PStr ''2023-06-09T10:00:01.000Z'')])"
      by (simp add: edited_env_def)
    show "py_get (PDict [(''id'', PStr ''page-1''),
                         (''last_edited_time'', PStr ''2023-06-09T10:00:01.000Z'')])
            ''last_edited_time'' PNone = Inr (PStr ''2023-06-09T10:00:01.000Z'')"
      by simp
    show "fromisoformat (edited_env mtime)
            (replace (CHR ''Z'') ''+00:00'' ''2023-06-09T10:00:01.000Z'') = Inr (Aware (t0 + 1000000))"
      by (simp add: edited_env_def replace_def)
  qed
  then show ?thesis by simp
qed

lemma sanitize_title_str:
  "sanitize_title (PStr s) =
     Inr (lower (replace (CHR '' '') ''-''
            (filter (\<lambda>c. isalnum c \<or> c \<in> set '' -_'') s)))"
proof -
  have "map_exn keep_char (map (\<lambda>c. PStr [c]) s)
        = Inr (map (\<lambda>c. if isalnum c \<or> c \<in> set '' -_'' then [c] else []) s)"
    by (induction s) (auto simp: keep_char_def)
  moreover have "concat (map (\<lambda>c. if isalnum c \<or> c \<in> set '' -_'' then [c] else []) s)
        = filter (\<lambda>c. isalnum c \<or> c \<in> set '' -_'') s"
    by (induction s) auto
  ultimately show ?thesis by (simp add: sanitize_title_def)
qed

lemma sanitize_example: "sanitize_title (PStr ''My: Test/Page!'') = Inr ''my-testpage''"
  by code_simp

text \<open>
  Claim C3 at two pulls with no target path. A title with no character to keep gives the
  file \<open>./docs/.md\<close>, not a name made from the page id; and a title whose file
  already exists overwrites that file, with no suffixed file written.
\<close>

theorem pull_without_path_name:
  "fst (sync_notion_to_file pull_env (PStr ''abcdef1234567890'') None notes_world)
     = Inr (True, ''Created new markdown file: ./docs/.md'') \<and>
   fst (sync_notion_to_file pull_env (PStr ''page-2'') None notes_world)
     = Inr (True, ''Created new markdown file: ./docs/notes.md'') \<and>
   files (snd (sync_notion_to_file pull_env (PStr ''page-2'') None notes_world)) ''./docs/notes.md''
     = Some (Inr \<lparr>metadata = [(''last_synced'', PStr ''2023-06-09T10:00:00''),
                               (''notion_page_id'', PStr ''page-2''), (''title'', PStr ''Notes'')],
                  content = []\<rparr>) \<and>
   files (snd (sync_notion_to_file pull_env (PStr ''page-2'') None notes_world)) ''./docs/notes-1.md''
     = None"
  by code_simp

text \<open>Claim C7 at a push of a file that does not exist.\<close>

theorem entry_points_never_raise_witness:
  "has_client quiet_env \<and>
   push_body quiet_env ''missing.md'' test_world
     = (Inl (Exn ''FileNotFoundError'' ''Markdown file not found: missing.md''), test_world) \<and>
   sync_file_to_notion quiet_env ''missing.md'' test_world
     = (Inr (False, ''Error syncing file to Notion: Markdown file not found: missing.md''), test_world)"
proof -
  have c: "has_client quiet_env" by (simp add: quiet_env_def)
  have b: "push_body quiet_env ''missing.md'' test_world
     = (Inl (Exn ''FileNotFoundError'' ''Markdown file not found: missing.md''), test_world)"
    by (simp add: push_body_def parse_file_def io_defs test_world_def file_not_found_def)
  from entry_points_never_raise[of quiet_env "''missing.md''" test_world] c b
  have "sync_file_to_notion quiet_env ''missing.md'' test_world
     = (Inr (False, ''Error syncing file to Notion: ''
              @ exn_str (Exn ''FileNotFoundError'' ''Markdown file not found: missing.md'')), test_world)"
    by blast
  with c b show ?thesis by simp
qed

text \<open>
  Claim C6 at the document of the integration test: where the lookup succeeds the page
  is updated, where it raises the page is created.
\<close>

theorem push_update_or_create_witness:
  "new_calls test_world (snd (sync_file_to_notion linked_env ''doc.md'' test_world))
     = [GetPage (PStr ''abc123''),
        UpdatePageBlocks (PStr ''abc123'') [create_heading_block ''Test Document'' 1]] \<and>
   (\<exists>properties rest.
      new_calls test_world (snd (sync_file_to_notion quiet_env ''doc.md'' test_world))
        = [GetPage (PStr ''abc123''), DatabasesRetrieve ''parent'',
           CreatePage ''parent'' (PStr ''Test Document'') properties] @ rest)"
proof -
  have f: "load_post ''doc.md'' test_world = (Inr test_post, test_world)"
    by (simp add: load_post_def test_world_def test_post_def post_parameters_def)
  have pid: "dict_get (metadata test_post) ''notion_page_id'' = PStr ''abc123''"
    by (simp add: dict_get_def test_post_def)
  have title: "resolve_title (metadata test_post) (content test_post) ''doc.md'' = PStr ''Test Document''"
    by (simp add: resolve_title_def dict_get_def test_post_def)
  have blocks: "markdown_to_blocks (content test_post) = [create_heading_block ''Test Document'' 1]"
    unfolding test_post_def by code_simp
  have l: "has_client linked_env" "md_convert linked_env (content test_post) = Inr (content test_post)"
    "succeeds (get_page linked_env (PStr ''abc123''))"
    by (simp_all add: linked_env_def quiet_env_def succeeds_def)
  have q: "has_client quiet_env" "md_convert quiet_env (content test_post) = Inr (content test_post)"
    "\<not> succeeds (get_page quiet_env (PStr ''abc123''))" "configured_parent quiet_env = Some ''parent''"
    by (simp_all add: quiet_env_def succeeds_def no_such_page_def configured_parent_def dashed_id_def)
  from push_update_or_create[OF l(1) f l(2)]
  have u: "new_calls test_world (snd (sync_file_to_notion linked_env ''doc.md'' test_world))
     = [GetPage (PStr ''abc123''),
        UpdatePageBlocks (PStr ''abc123'') [create_heading_block ''Test Document'' 1]]"
    by (simp add: Let_def pid blocks l(3))
  from push_update_or_create[OF q(1) f q(2)]
  have c: "\<exists>properties rest.
      new_calls test_world (snd (sync_file_to_notion quiet_env ''doc.md'' test_world))
        = [GetPage (PStr ''abc123''), DatabasesRetrieve ''parent'',
           CreatePage ''parent'' (PStr ''Test Document'') properties] @ rest"
    by (simp add: Let_def pid title q(3,4))
  from u c show ?thesis by (rule conjI)
qed

end
